theory Spec2Isabelle
  imports Complex_Main "HOL-Library.Multiset"
begin

section \<open>Inventory service: items, photos and the two persistence variants\<close>

text \<open>
  The repository holds two programs with the same routes. \<^verbatim>\<open>main.js\<close> keeps the
  items in an in-memory object \<^verbatim>\<open>inventory = { nextId, list }\<close> that is rewritten to
  \<^verbatim>\<open>inventory.json\<close> after every mutation (the flat-file variant, suffix \<open>_f\<close> below).
  The second program keeps them in a table \<^verbatim>\<open>inventory\<close> reached through
  \<^verbatim>\<open>pool.query\<close> (the relational variant, suffix \<open>_r\<close>). Both store uploaded
  photos as files in a directory and keep the file name in the item.

  Every handler is a function from the state before the request to the response and the
  state after it. The state carries a chronological log of the effects on the file
  system and on the record store, so that the order of the effects of one handler can
  be stated.
\<close>

subsection \<open>JavaScript values used by the handlers\<close>

text \<open>
  Item ids are JavaScript numbers, that is doubles, with integer values: an id is
  modelled as the integer that the double is. Every integer of magnitude up to \<open>2^53\<close>
  is a double; the arithmetic and the printing of the program are those of doubles
  (\<open>increment\<close> and \<open>show_int\<close> below). A number that is
  compared with an id is one of: \<open>NaN\<close>, an integer, or any other value (a fraction or
  an infinity), which is equal to no id.
\<close>

datatype jsnum = NaN | Num int | Other

text \<open>JavaScript truthiness of a string that may be \<^verbatim>\<open>undefined\<close> or \<^verbatim>\<open>null\<close>.\<close>

fun truthy :: "string option \<Rightarrow> bool" where
  "truthy None = False"
| "truthy (Some s) = (s \<noteq> [])"

text \<open>
  White space that \<^verbatim>\<open>Number\<close> and \<^verbatim>\<open>parseInt\<close> strip: the ASCII characters TAB, LF,
  VT, FF, CR, SP and, strings being UTF-8 byte sequences here, the encodings of U+00A0,
  U+1680, U+2000 to U+200A, U+2028, U+2029, U+202F, U+205F, U+3000 and U+FEFF.
  \<open>ws_len s\<close> is the number of bytes of the white space character at the head of \<open>s\<close>,
  \<open>0\<close> when there is none.
\<close>

definition byte :: "char \<Rightarrow> nat" where
  "byte c = of_char c"

definition ws_len :: "string \<Rightarrow> nat" where
  "ws_len s =
     (let bs = map byte (take 3 s)
      in if bs \<noteq> [] \<and> hd bs \<in> {9, 10, 11, 12, 13, 32} then 1
         else if take 2 bs = [194, 160] then 2
         else if bs \<in> {[225, 154, 128], [226, 128, 168], [226, 128, 169], [226, 128, 175],
                        [226, 129, 159], [227, 128, 128], [239, 187, 191]} then 3
         else if take 2 bs = [226, 128] \<and> length bs = 3 \<and> 128 \<le> bs ! 2 \<and> bs ! 2 \<le> 138 then 3
         else 0)"

text \<open>
  \<open>skip_ws k s\<close> drops \<open>k\<close> pending bytes of a white space character and then
  every further white space character at the head of \<open>s\<close>.
\<close>

fun skip_ws :: "nat \<Rightarrow> string \<Rightarrow> string" where
  "skip_ws k [] = []"
| "skip_ws k (c # s) =
     (if 0 < k then skip_ws (k - 1) s
      else if ws_len (c # s) = 0 then c # s
      else skip_ws (ws_len (c # s) - 1) s)"

definition trim_start :: "string \<Rightarrow> string" where
  "trim_start s = skip_ws 0 s"

text \<open>
  Trailing white space is found by scanning the suffixes from the left: a string is
  white space only when \<open>trim_start\<close> empties it.
\<close>

fun trim_end :: "string \<Rightarrow> string" where
  "trim_end [] = []"
| "trim_end (a # s) = (if trim_start (a # s) = [] then [] else a # trim_end s)"

definition trim :: "string \<Rightarrow> string" where
  "trim s = trim_end (trim_start s)"

definition is_digit :: "char \<Rightarrow> bool" where
  "is_digit c = (48 \<le> byte c \<and> byte c \<le> 57)"

text \<open>The value of a digit in radix up to 16; \<open>16\<close> for a character that is no digit.\<close>

definition digit_val :: "char \<Rightarrow> nat" where
  "digit_val c =
     (if 48 \<le> byte c \<and> byte c \<le> 57 then byte c - 48
      else if 97 \<le> byte c \<and> byte c \<le> 102 then byte c - 87
      else if 65 \<le> byte c \<and> byte c \<le> 70 then byte c - 55
      else 16)"

definition is_radix_digit :: "nat \<Rightarrow> char \<Rightarrow> bool" where
  "is_radix_digit r c = (digit_val c < r)"

definition digits_value :: "nat \<Rightarrow> string \<Rightarrow> nat" where
  "digits_value r ds = foldl (\<lambda>a c. r * a + digit_val c) 0 ds"

subsubsection \<open>Rounding to a double\<close>

text \<open>
  \<^verbatim>\<open>Number\<close> and \<^verbatim>\<open>parseInt\<close> return the double nearest to the mathematical value
  of the literal, ties to even. \<open>to_double q\<close> is that double as the handlers see it:
  \<open>Num k\<close> when it is the integer \<open>k\<close>, \<open>Other\<close> when it is a fraction or an infinity.
\<close>

definition pow2 :: "int \<Rightarrow> rat" where
  "pow2 e = (if 0 \<le> e then 2 ^ nat e else 1 / 2 ^ nat (- e))"

text \<open>
  \<open>bits n\<close> is the length of the binary numeral of \<open>n\<close>, and \<open>ilog2 q\<close> is
  \<open>\<lfloor>log\<^sub>2 q\<rfloor>\<close> for a positive rational \<open>q\<close>.
\<close>

fun bits :: "nat \<Rightarrow> nat" where
  "bits n = (if n = 0 then 0 else Suc (bits (n div 2)))"

declare bits.simps [simp del]

definition ilog2 :: "rat \<Rightarrow> int" where
  "ilog2 q =
     (let (a, b) = quotient_of q;
          e = int (bits (nat a)) - int (bits (nat b))
      in if pow2 e \<le> q then e else e - 1)"

definition round_half_even :: "rat \<Rightarrow> int" where
  "round_half_even m =
     (let f = \<lfloor>m\<rfloor>; d = m - of_int f
      in if d < 1 / 2 then f else if 1 / 2 < d then f + 1
         else if even f then f else f + 1)"

definition to_double :: "rat \<Rightarrow> jsnum" where
  "to_double q =
     (if q = 0 then Num 0
      else
        let a = \<bar>q\<bar>;
            e = max (ilog2 a) (- 1022);
            u = pow2 (e - 52);
            d = of_int (round_half_even (a / u)) * u
        in if pow2 1024 \<le> d then Other
           else if of_int \<lfloor>d\<rfloor> = d then Num (if q < 0 then - \<lfloor>d\<rfloor> else \<lfloor>d\<rfloor>)
           else Other)"

subsubsection \<open>\<^verbatim>\<open>Number(string)\<close>\<close>

text \<open>
  The argument is trimmed; the empty string is \<open>0\<close>; \<^verbatim>\<open>0x\<close>, \<^verbatim>\<open>0o\<close> and \<^verbatim>\<open>0b\<close>
  introduce an unsigned integer in radix 16, 8 and 2; otherwise the string must be an
  optionally signed \<^verbatim>\<open>Infinity\<close> or decimal literal with optional fraction and
  exponent. Anything else is \<open>NaN\<close>.
\<close>

definition radix_literal :: "nat \<Rightarrow> string \<Rightarrow> jsnum" where
  "radix_literal r ds =
     (if ds \<noteq> [] \<and> list_all (is_radix_digit r) ds
      then to_double (of_nat (digits_value r ds)) else NaN)"

text \<open>
  The exponent part after the mantissa: \<open>Some 0\<close> when there is none, \<open>Some n\<close> for
  \<^verbatim>\<open>e\<close> or \<^verbatim>\<open>E\<close>, an optional sign and at least one digit, \<open>None\<close> otherwise.
\<close>

definition exponent_part :: "string \<Rightarrow> int option" where
  "exponent_part s =
     (case s of
        [] \<Rightarrow> Some 0
      | c # r \<Rightarrow>
          if c = CHR ''e'' \<or> c = CHR ''E'' then
            (let neg = (r \<noteq> [] \<and> hd r = CHR ''-'');
                 ds = (if r \<noteq> [] \<and> (hd r = CHR ''-'' \<or> hd r = CHR ''+'') then tl r else r)
             in if ds \<noteq> [] \<and> list_all is_digit ds
                then Some (if neg then - int (digits_value 10 ds) else int (digits_value 10 ds))
                else None)
          else None)"

definition unsigned_decimal :: "string \<Rightarrow> rat option" where
  "unsigned_decimal s =
     (let ip = takeWhile is_digit s;
          r1 = dropWhile is_digit s;
          dot = (r1 \<noteq> [] \<and> hd r1 = CHR ''.'');
          fp = (if dot then takeWhile is_digit (tl r1) else []);
          r2 = (if dot then dropWhile is_digit (tl r1) else r1)
      in if ip = [] \<and> fp = [] then None
         else case exponent_part r2 of
           None \<Rightarrow> None
         | Some x \<Rightarrow>
             Some (of_nat (digits_value 10 (ip @ fp)) * (let k = x - int (length fp)
                in if 0 \<le> k then 10 ^ nat k else 1 / 10 ^ nat (- k))))"

definition signed_decimal :: "string \<Rightarrow> jsnum" where
  "signed_decimal s =
     (let neg = (s \<noteq> [] \<and> hd s = CHR ''-'');
          u = (if s \<noteq> [] \<and> (hd s = CHR ''-'' \<or> hd s = CHR ''+'') then tl s else s)
      in if u = ''Infinity'' then Other
         else case unsigned_decimal u of
           None \<Rightarrow> NaN
         | Some q \<Rightarrow> to_double (if neg then - q else q))"

definition Number_js :: "string \<Rightarrow> jsnum" where
  "Number_js str =
     (let s = trim str
      in if s = [] then Num 0
         else if take 2 s \<in> {''0x'', ''0X''} then radix_literal 16 (drop 2 s)
         else if take 2 s \<in> {''0o'', ''0O''} then radix_literal 8 (drop 2 s)
         else if take 2 s \<in> {''0b'', ''0B''} then radix_literal 2 (drop 2 s)
         else signed_decimal s)"

subsubsection \<open>\<^verbatim>\<open>parseInt(value)\<close> without a radix\<close>

text \<open>
  The argument is converted to a string (\<^verbatim>\<open>undefined\<close> becomes \<^verbatim>\<open>"undefined"\<close>),
  leading white space and a sign are removed, \<^verbatim>\<open>0x\<close> selects radix 16, and the
  longest prefix of digits is the value; no digit gives \<open>NaN\<close>. What follows the digits
  is ignored.
\<close>

definition parseInt_js :: "string option \<Rightarrow> jsnum" where
  "parseInt_js v =
     (let s = trim_start (case v of None \<Rightarrow> ''undefined'' | Some x \<Rightarrow> x);
          neg = (s \<noteq> [] \<and> hd s = CHR ''-'');
          u = (if s \<noteq> [] \<and> (hd s = CHR ''-'' \<or> hd s = CHR ''+'') then tl s else s);
          r = (if take 2 u \<in> {''0x'', ''0X''} then 16 else 10);
          z = takeWhile (is_radix_digit r) (if r = 16 then drop 2 u else u)
      in if z = [] then NaN
         else to_double (if neg then - of_nat (digits_value r z) else of_nat (digits_value r z)))"

subsubsection \<open>Number to string\<close>

text \<open>
  An id in a template literal, \<^verbatim>\<open>`${item.id}`\<close>, is printed by \<^verbatim>\<open>Number::toString\<close>:
  with the least number of significant digits that still read back as the same double
  (the nearest such numeral when there are several), followed by zeros up to the size of
  the number, and in the form \<^verbatim>\<open>d.ddde+n\<close> when that takes more than 21 digits.
  For an integer below \<open>2^53\<close> this is its decimal numeral; \<^verbatim>\<open>2 ** 60\<close> prints as
  \<^verbatim>\<open>1152921504606847000\<close> and \<^verbatim>\<open>1e21\<close> as \<^verbatim>\<open>1e+21\<close>.

  \<open>digits_of n\<close> is the decimal numeral of \<open>n\<close>. \<open>candidates x\<close> lists, for one, two,
  ... significant digits, the two numbers with that many digits and the size of \<open>x\<close>
  that enclose \<open>x\<close>, the nearer one first and on a tie the one whose last digit is even;
  \<open>shortest x\<close> is the first of them that reads back as \<open>x\<close>.
\<close>

fun digits_of :: "nat \<Rightarrow> string" where
  "digits_of n =
     (if n < 10 then [''0123456789'' ! n]
      else digits_of (n div 10) @ [''0123456789'' ! (n mod 10)])"

declare digits_of.simps [simp del]

definition reads_back :: "nat \<Rightarrow> nat \<Rightarrow> bool" where
  "reads_back x c = (to_double (of_nat c) = Num (int x))"

definition candidates :: "nat \<Rightarrow> nat list" where
  "candidates x =
     concat (map (\<lambda>k. let p = 10 ^ (length (digits_of x) - k);
                          lo = (x div p) * p;
                          hi = lo + p
                      in if x - lo < hi - x then [lo, hi]
                         else if hi - x < x - lo then [hi, lo]
                         else if even (x div p) then [lo, hi] else [hi, lo])
                 [1 ..< Suc (length (digits_of x))])"

definition shortest :: "nat \<Rightarrow> nat" where
  "shortest x = (case find (reads_back x) (candidates x) of Some c \<Rightarrow> c | None \<Rightarrow> x)"

definition number_string :: "nat \<Rightarrow> string" where
  "number_string x =
     (let ds = digits_of (shortest x);
          n = length ds;
          s = rev (dropWhile (\<lambda>c. c = CHR ''0'') (rev ds))
      in if n \<le> 21 then ds
         else hd s # (if tl s = [] then [] else CHR ''.'' # tl s) @ ''e+'' @ digits_of (n - 1))"

definition show_int :: "int \<Rightarrow> string" where
  "show_int k = (if k < 0 then CHR ''-'' # number_string (nat (- k)) else number_string (nat k))"

subsubsection \<open>Adding one\<close>

text \<open>
  \<^verbatim>\<open>inventory.nextId += 1\<close> adds two doubles: the result is the double nearest to the
  sum, ties to even. Up to \<open>2^53\<close> the sum is exact; \<open>2^53 + 1\<close> is no double and
  rounds to \<open>2^53\<close>, so that there the counter stays where it is. (The sum of an
  integer-valued double and \<open>1\<close> is an integer-valued double, so the second case of the
  definition does not arise for a counter that the program can hold.)
\<close>

definition increment :: "int \<Rightarrow> int" where
  "increment n = (case to_double (of_int n + 1) of Num k \<Rightarrow> k | _ \<Rightarrow> n)"

subsection \<open>Items, responses and effects\<close>

text \<open>
  An item is the object \<^verbatim>\<open>{ id, inventory_name, description, photo }\<close> of the list and
  the row of the table; \<open>photo\<close> is the file name of the upload or \<^verbatim>\<open>null\<close>. Text
  fields of a request are strings or absent (\<^verbatim>\<open>undefined\<close>, and \<^verbatim>\<open>null\<close> in a JSON
  body); other JSON values of a field are outside the model.
\<close>

record item =
  item_id :: int
  inventory_name :: string
  description :: string
  photo :: "string option"

text \<open>The object left of \<^verbatim>\<open>const { photo, ...responseItem } = formatItemResponse(item)\<close>.\<close>

record responseItem =
  r_id :: int
  r_inventory_name :: string
  r_description :: string

record inventory =
  nextId :: int
  list :: "item list"

text \<open>
  What \<^verbatim>\<open>res\<close> is given: \<^verbatim>\<open>send(text)\<close>, \<^verbatim>\<open>json(string)\<close>, \<^verbatim>\<open>json(object)\<close>,
  \<^verbatim>\<open>json(array)\<close>, \<^verbatim>\<open>json()\<close> and, in the relational variant, \<^verbatim>\<open>json(err.message)\<close>.
\<close>

datatype body =
    Text string
  | Json_string string
  | Json_item item
  | Json_items "item list"
  | Json_responseItem responseItem
  | Json_undefined
  | Json_error

record response =
  status :: nat
  body :: body

text \<open>
  The effects a handler has outside its own variables, in the order in which it performs
  them: the upload middleware writing a file, \<^verbatim>\<open>fs.unlinkSync\<close>, \<^verbatim>\<open>fs.writeFileSync\<close>
  of the whole inventory, and the four mutating SQL statements.
\<close>

datatype effect =
    Stored string
  | Unlinked string
  | Written inventory
  | Inserted item
  | Updated int string string
  | Photo_set int "string option"
  | Deleted int

text \<open>\<^verbatim>\<open>a ?? b\<close>\<close>

definition nullish :: "'a option \<Rightarrow> 'a \<Rightarrow> 'a" where
  "nullish a b = (case a of None \<Rightarrow> b | Some x \<Rightarrow> x)"

text \<open>\<^verbatim>\<open>list.find((v) => v.id === n)\<close>; \<open>NaN\<close> and a non-integer are equal to no id.\<close>

definition find_id :: "jsnum \<Rightarrow> item list \<Rightarrow> item option" where
  "find_id n xs = find (\<lambda>v. Num (item_id v) = n) xs"

text \<open>
  The handlers change the object that \<^verbatim>\<open>find\<close> returned, which is the first element of
  the list with the id, and \<^verbatim>\<open>filter((i) => i !== item)\<close> drops that one object.
\<close>

fun mutate_found :: "('a \<Rightarrow> bool) \<Rightarrow> ('a \<Rightarrow> 'a) \<Rightarrow> 'a list \<Rightarrow> 'a list" where
  "mutate_found P f [] = []"
| "mutate_found P f (x # xs) = (if P x then f x # xs else x # mutate_found P f xs)"

fun drop_found :: "('a \<Rightarrow> bool) \<Rightarrow> 'a list \<Rightarrow> 'a list" where
  "drop_found P [] = []"
| "drop_found P (x # xs) = (if P x then xs else x # drop_found P xs)"

subsection \<open>The flat-file variant (\<^verbatim>\<open>main.js\<close>)\<close>

text \<open>
  The state: the options \<open>host\<close> and \<open>port\<close>, the variable \<open>inventory\<close>, the content of
  \<^verbatim>\<open>inventory.json\<close> (\<open>dbFile\<close>, as the value \<^verbatim>\<open>JSON.parse\<close> would read back), the names
  of the files in the uploads directory, and the log of effects. Reading and writing
  files is taken to succeed.
\<close>

record fstate =
  host :: string
  port :: string
  inventory :: inventory
  dbFile :: inventory
  uploads :: "string set"
  log :: "effect list"

text \<open>
  Start of the program: a missing \<^verbatim>\<open>inventory.json\<close> is created with
  \<^verbatim>\<open>{ nextId: 1, list: [] }\<close>, then the file is read into \<open>inventory\<close>.
\<close>

definition startup :: "string \<Rightarrow> string \<Rightarrow> inventory option \<Rightarrow> string set \<Rightarrow> fstate" where
  "startup h p file ups =
     (case file of
        None \<Rightarrow>
          \<lparr>host = h, port = p, inventory = \<lparr>nextId = 1, list = []\<rparr>,
           dbFile = \<lparr>nextId = 1, list = []\<rparr>, uploads = ups,
           log = [Written \<lparr>nextId = 1, list = []\<rparr>]\<rparr>
      | Some c \<Rightarrow>
          \<lparr>host = h, port = p, inventory = c, dbFile = c, uploads = ups, log = []\<rparr>)"

text \<open>
  \<^verbatim>\<open>upload.single("photo")\<close> runs before the handler and has written the uploaded file
  under a name of its choice when the handler starts; that name is \<^verbatim>\<open>req.file.filename\<close>.
  A request without a file leaves \<^verbatim>\<open>req.file\<close> undefined.
\<close>

definition multer :: "string option \<Rightarrow> fstate \<Rightarrow> fstate" where
  "multer file s =
     (case file of
        None \<Rightarrow> s
      | Some f \<Rightarrow> s\<lparr>uploads := insert f (uploads s), log := log s @ [Stored f]\<rparr>)"

text \<open>
  \<^verbatim>\<open>fs.unlinkSync\<close> is only called on a file that \<^verbatim>\<open>fs.existsSync\<close> has just seen or
  that the middleware has just written, so it does not throw.
\<close>

definition unlinkSync :: "string \<Rightarrow> fstate \<Rightarrow> fstate" where
  "unlinkSync f s = s\<lparr>uploads := uploads s - {f}, log := log s @ [Unlinked f]\<rparr>"

text \<open>\<^verbatim>\<open>if (req.file) fs.unlinkSync(req.file.path)\<close>\<close>

definition discard_upload :: "string option \<Rightarrow> fstate \<Rightarrow> fstate" where
  "discard_upload file s = (case file of None \<Rightarrow> s | Some f \<Rightarrow> unlinkSync f s)"

text \<open>
  \<^verbatim>\<open>if (item.photo) { if (fs.existsSync(p)) fs.unlinkSync(p) }\<close> with
  \<^verbatim>\<open>p = path.join(uploadsPath, item.photo)\<close>
\<close>

definition unlink_photo :: "item \<Rightarrow> fstate \<Rightarrow> fstate" where
  "unlink_photo it s =
     (case photo it of
        None \<Rightarrow> s
      | Some f \<Rightarrow> if f \<noteq> [] \<and> f \<in> uploads s then unlinkSync f s else s)"

text \<open>\<^verbatim>\<open>fs.writeFileSync(dbFile, JSON.stringify(inventory))\<close>\<close>

definition writeFileSync :: "fstate \<Rightarrow> fstate" where
  "writeFileSync s = s\<lparr>dbFile := inventory s, log := log s @ [Written (inventory s)]\<rparr>"

definition formatItemResponse :: "fstate \<Rightarrow> item \<Rightarrow> item" where
  "formatItemResponse s it =
     it\<lparr>photo :=
          (if truthy (photo it)
           then Some (''http://'' @ host s @ '':'' @ port s @ ''/inventory/'' @ show_int (item_id it)
                      @ ''/photo'')
           else None)\<rparr>"

definition not_found :: response where
  "not_found = \<lparr>status = 404, body = Json_string ''Inventory with this id not found''\<rparr>"

text \<open>\<^verbatim>\<open>POST /register\<close>\<close>

definition register_f ::
  "fstate \<Rightarrow> string option \<Rightarrow> string option \<Rightarrow> string option \<Rightarrow> response \<times> fstate" where
  "register_f s0 name descr file =
     (let s = multer file s0
      in if \<not> truthy name then (\<lparr>status = 400, body = Text ''Name required''\<rparr>, s)
         else
           let d = (if \<not> truthy descr then [] else nullish descr []);
               i = nextId (inventory s);
               it = \<lparr>item_id = i, inventory_name = nullish name [], description = d, photo = file\<rparr>;
               s1 = s\<lparr>inventory := \<lparr>nextId = increment i, list = list (inventory s) @ [it]\<rparr>\<rparr>;
               s2 = writeFileSync s1
           in (\<lparr>status = 200, body = Json_item (formatItemResponse s2 it)\<rparr>, s2))"

text \<open>\<^verbatim>\<open>GET /inventory\<close>\<close>

definition list_f :: "fstate \<Rightarrow> response \<times> fstate" where
  "list_f s =
     (\<lparr>status = 200, body = Json_items (map (formatItemResponse s) (list (inventory s)))\<rparr>, s)"

text \<open>\<^verbatim>\<open>GET /inventory/:id\<close>\<close>

definition get_f :: "fstate \<Rightarrow> string \<Rightarrow> response \<times> fstate" where
  "get_f s p =
     (case find_id (Number_js p) (list (inventory s)) of
        Some it \<Rightarrow> (\<lparr>status = 200, body = Json_item (formatItemResponse s it)\<rparr>, s)
      | None \<Rightarrow> (not_found, s))"

text \<open>
  \<^verbatim>\<open>PUT /inventory/:id\<close>. The route has no upload middleware, so \<^verbatim>\<open>req.file\<close> is
  undefined and the \<^verbatim>\<open>unlinkSync\<close> of its not-found branch does not run.
\<close>

definition update_f :: "fstate \<Rightarrow> string \<Rightarrow> string option \<Rightarrow> string option \<Rightarrow> response \<times> fstate" where
  "update_f s p name descr =
     (case find_id (Number_js p) (list (inventory s)) of
        None \<Rightarrow> (not_found, s)
      | Some it \<Rightarrow>
          let it' = it\<lparr>inventory_name := nullish name (inventory_name it),
                       description := nullish descr (description it)\<rparr>;
              s1 = s\<lparr>inventory := (inventory s)\<lparr>list :=
                       mutate_found (\<lambda>v. Num (item_id v) = Number_js p) (\<lambda>_. it')
                         (list (inventory s))\<rparr>\<rparr>;
              s2 = writeFileSync s1
          in (\<lparr>status = 200, body = Json_item (formatItemResponse s2 it')\<rparr>, s2))"

text \<open>\<^verbatim>\<open>PUT /inventory/:id/photo\<close>\<close>

definition put_photo_f :: "fstate \<Rightarrow> string \<Rightarrow> string option \<Rightarrow> response \<times> fstate" where
  "put_photo_f s0 p file =
     (let s = multer file s0
      in case find_id (Number_js p) (list (inventory s)) of
           None \<Rightarrow> (not_found, discard_upload file s)
         | Some it \<Rightarrow>
             let s1 = unlink_photo it s;
                 it' = it\<lparr>photo := file\<rparr>;
                 s2 = s1\<lparr>inventory := (inventory s1)\<lparr>list :=
                          mutate_found (\<lambda>v. Num (item_id v) = Number_js p) (\<lambda>_. it')
                            (list (inventory s1))\<rparr>\<rparr>;
                 s3 = writeFileSync s2
             in (\<lparr>status = 200, body = Json_item (formatItemResponse s3 it')\<rparr>, s3))"

text \<open>\<^verbatim>\<open>DELETE /inventory/:id\<close>\<close>

definition delete_f :: "fstate \<Rightarrow> string \<Rightarrow> response \<times> fstate" where
  "delete_f s p =
     (case find_id (Number_js p) (list (inventory s)) of
        None \<Rightarrow> (not_found, s)
      | Some it \<Rightarrow>
          let s1 = unlink_photo it s;
              s2 = s1\<lparr>inventory := (inventory s1)\<lparr>list :=
                       drop_found (\<lambda>v. Num (item_id v) = Number_js p) (list (inventory s1))\<rparr>\<rparr>;
              s3 = writeFileSync s2
          in (\<lparr>status = 200, body = Json_undefined\<rparr>, s3))"

text \<open>\<^verbatim>\<open>POST /search\<close>\<close>

definition search_f :: "fstate \<Rightarrow> string option \<Rightarrow> string option \<Rightarrow> response \<times> fstate" where
  "search_f s i has_photo =
     (case find_id (parseInt_js i) (list (inventory s)) of
        None \<Rightarrow> (not_found, s)
      | Some it \<Rightarrow>
          let v = formatItemResponse s it;
              r = \<lparr>r_id = item_id v, r_inventory_name = inventory_name v,
                   r_description = description v\<rparr>;
              r' = (if has_photo = Some ''on''
                    then (if truthy (photo v)
                          then r\<lparr>r_description := r_description r @ '' [Photo:'' @ nullish (photo v) []
                                                   @ '']''\<rparr>
                          else r\<lparr>r_description := r_description r @ '' [No photo available]''\<rparr>)
                    else r)
          in (\<lparr>status = 200, body = Json_responseItem r'\<rparr>, s))"

subsection \<open>The relational variant\<close>

text \<open>
  Modelled from the spec: the module \<^verbatim>\<open>./db\<close> that exports \<^verbatim>\<open>pool\<close> and the schema of
  the table \<^verbatim>\<open>inventory\<close> are not among the sources. The spec describes a relational table
  of items whose \<open>id\<close> is an integer that the store assigns monotonically, and a
  repository whose failures surface as errors. So the state holds the rows of the table,
  the next value of the sequence behind its \<open>id\<close> column, the names of the files in
  \<^verbatim>\<open>CACHE\<close>, the log of effects, and \<open>faults\<close>, the outcome the environment has in store
  for the coming queries: each \<^verbatim>\<open>pool.query\<close> consumes one entry, \<open>True\<close> makes it throw,
  and an empty list means that no query fails.
\<close>

record rstate =
  table :: "item list"
  serial :: int
  cache :: "string set"
  faults :: "bool list"
  trace :: "effect list"

definition query_fails :: "rstate \<Rightarrow> bool" where
  "query_fails t = (case faults t of [] \<Rightarrow> False | b # _ \<Rightarrow> b)"

definition next_query :: "rstate \<Rightarrow> rstate" where
  "next_query t = t\<lparr>faults := (case faults t of [] \<Rightarrow> [] | _ # bs \<Rightarrow> bs)\<rparr>"

text \<open>
  Modelled from the spec: the \<open>id\<close> column is an integer, and the text of a parameter
  compared with it is read as PostgreSQL reads an integer: optional white space, an
  optional sign, decimal digits, optional white space, within 32 bits. Any other text
  makes the query throw.
\<close>

definition pg_space :: "char \<Rightarrow> bool" where
  "pg_space c = (byte c \<in> {9, 10, 11, 12, 13, 32})"

definition pg_int :: "string \<Rightarrow> int option" where
  "pg_int txt =
     (let s = dropWhile pg_space txt;
          neg = (s \<noteq> [] \<and> hd s = CHR ''-'');
          u = (if s \<noteq> [] \<and> (hd s = CHR ''-'' \<or> hd s = CHR ''+'') then tl s else s);
          ds = takeWhile is_digit u;
          v = (if neg then - int (digits_value 10 ds) else int (digits_value 10 ds))
      in if ds \<noteq> [] \<and> list_all pg_space (dropWhile is_digit u) \<and> - (2 ^ 31) \<le> v \<and> v < 2 ^ 31
         then Some v else None)"

text \<open>
  \<^verbatim>\<open>(await pool.query(`SELECT * FROM inventory WHERE id = $1;`, [id])).rows[0]\<close>:
  \<open>None\<close> when the query throws, otherwise the row or \<^verbatim>\<open>undefined\<close>. An undefined
  parameter is sent as \<^verbatim>\<open>NULL\<close> and selects nothing.
\<close>

definition select_by_id :: "string option \<Rightarrow> rstate \<Rightarrow> item option option" where
  "select_by_id p t =
     (if query_fails t then None
      else case p of
        None \<Rightarrow> Some None
      | Some txt \<Rightarrow>
          (case pg_int txt of
             None \<Rightarrow> None
           | Some k \<Rightarrow> Some (find (\<lambda>r. item_id r = k) (table t))))"

definition multer_r :: "string option \<Rightarrow> rstate \<Rightarrow> rstate" where
  "multer_r file t =
     (case file of
        None \<Rightarrow> t
      | Some f \<Rightarrow> t\<lparr>cache := insert f (cache t), trace := trace t @ [Stored f]\<rparr>)"

definition unlinkSync_r :: "string \<Rightarrow> rstate \<Rightarrow> rstate" where
  "unlinkSync_r f t = t\<lparr>cache := cache t - {f}, trace := trace t @ [Unlinked f]\<rparr>"

definition discard_upload_r :: "string option \<Rightarrow> rstate \<Rightarrow> rstate" where
  "discard_upload_r file t = (case file of None \<Rightarrow> t | Some f \<Rightarrow> unlinkSync_r f t)"

definition unlink_photo_r :: "item \<Rightarrow> rstate \<Rightarrow> rstate" where
  "unlink_photo_r it t =
     (case photo it of
        None \<Rightarrow> t
      | Some f \<Rightarrow> if f \<noteq> [] \<and> f \<in> cache t then unlinkSync_r f t else t)"

definition formatItemResponse_r :: "item \<Rightarrow> item" where
  "formatItemResponse_r it =
     it\<lparr>photo :=
          (if truthy (photo it) then Some (''/inventory/'' @ show_int (item_id it) @ ''/photo'')
           else None)\<rparr>"

definition server_error :: response where
  "server_error = \<lparr>status = 500, body = Json_error\<rparr>"

text \<open>\<^verbatim>\<open>POST /register\<close>\<close>

definition register_r ::
  "rstate \<Rightarrow> string option \<Rightarrow> string option \<Rightarrow> string option \<Rightarrow> response \<times> rstate" where
  "register_r t0 name descr file =
     (let t = multer_r file t0
      in if \<not> truthy name
         then (\<lparr>status = 400, body = Text ''Name required''\<rparr>, discard_upload_r file t)
         else
           let d = (if \<not> truthy descr then [] else nullish descr [])
           in if query_fails t then (server_error, discard_upload_r file (next_query t))
              else
                let i = serial t;
                    it = \<lparr>item_id = i, inventory_name = nullish name [], description = d,
                          photo = file\<rparr>;
                    t1 = (next_query t)\<lparr>table := table t @ [it], serial := i + 1,
                                         trace := trace t @ [Inserted it]\<rparr>
                in (\<lparr>status = 200, body = Json_item (formatItemResponse_r it)\<rparr>, t1))"

text \<open>\<^verbatim>\<open>GET /inventory\<close>; the rows come in the order of the model's table.\<close>

definition list_r :: "rstate \<Rightarrow> response \<times> rstate" where
  "list_r t =
     (if query_fails t then (server_error, next_query t)
      else (\<lparr>status = 200, body = Json_items (map formatItemResponse_r (table t))\<rparr>,
            next_query t))"

text \<open>\<^verbatim>\<open>GET /inventory/:id\<close>\<close>

definition get_r :: "rstate \<Rightarrow> string \<Rightarrow> response \<times> rstate" where
  "get_r t p =
     (case select_by_id (Some p) t of
        None \<Rightarrow> (server_error, next_query t)
      | Some None \<Rightarrow> (not_found, next_query t)
      | Some (Some it) \<Rightarrow>
          (\<lparr>status = 200, body = Json_item (formatItemResponse_r it)\<rparr>, next_query t))"

text \<open>\<^verbatim>\<open>PUT /inventory/:id\<close>\<close>

definition update_r :: "rstate \<Rightarrow> string \<Rightarrow> string option \<Rightarrow> string option \<Rightarrow> response \<times> rstate" where
  "update_r t p name descr =
     (case select_by_id (Some p) t of
        None \<Rightarrow> (server_error, next_query t)
      | Some None \<Rightarrow> (not_found, next_query t)
      | Some (Some it) \<Rightarrow>
          let it' = it\<lparr>inventory_name := nullish name (inventory_name it),
                       description := nullish descr (description it)\<rparr>;
              t1 = next_query t
          in if query_fails t1 then (server_error, next_query t1)
             else
               (\<lparr>status = 200, body = Json_item (formatItemResponse_r it')\<rparr>,
                (next_query t1)\<lparr>table :=
                    map (\<lambda>r. if item_id r = item_id it
                             then r\<lparr>inventory_name := inventory_name it',
                                    description := description it'\<rparr>
                             else r) (table t1),
                  trace := trace t1 @ [Updated (item_id it) (inventory_name it') (description it')]\<rparr>))"

text \<open>\<^verbatim>\<open>PUT /inventory/:id/photo\<close>\<close>

definition put_photo_r :: "rstate \<Rightarrow> string \<Rightarrow> string option \<Rightarrow> response \<times> rstate" where
  "put_photo_r t0 p file =
     (let t = multer_r file t0
      in case select_by_id (Some p) t of
           None \<Rightarrow> (server_error, discard_upload_r file (next_query t))
         | Some None \<Rightarrow> (not_found, discard_upload_r file (next_query t))
         | Some (Some it) \<Rightarrow>
             let t1 = unlink_photo_r it (next_query t);
                 it' = it\<lparr>photo := file\<rparr>
             in if query_fails t1 then (server_error, discard_upload_r file (next_query t1))
                else
                  (\<lparr>status = 200, body = Json_item (formatItemResponse_r it')\<rparr>,
                   (next_query t1)\<lparr>table :=
                       map (\<lambda>r. if item_id r = item_id it then r\<lparr>photo := file\<rparr> else r) (table t1),
                     trace := trace t1 @ [Photo_set (item_id it) file]\<rparr>))"

text \<open>\<^verbatim>\<open>DELETE /inventory/:id\<close>\<close>

definition delete_r :: "rstate \<Rightarrow> string \<Rightarrow> response \<times> rstate" where
  "delete_r t p =
     (case select_by_id (Some p) t of
        None \<Rightarrow> (server_error, next_query t)
      | Some None \<Rightarrow> (not_found, next_query t)
      | Some (Some it) \<Rightarrow>
          let t1 = unlink_photo_r it (next_query t)
          in if query_fails t1 then (server_error, next_query t1)
             else
               (\<lparr>status = 200, body = Json_undefined\<rparr>,
                (next_query t1)\<lparr>table := filter (\<lambda>r. item_id r \<noteq> item_id it) (table t1),
                  trace := trace t1 @ [Deleted (item_id it)]\<rparr>))"

text \<open>\<^verbatim>\<open>POST /search\<close>\<close>

definition search_r :: "rstate \<Rightarrow> string option \<Rightarrow> string option \<Rightarrow> response \<times> rstate" where
  "search_r t i has_photo =
     (case select_by_id i t of
        None \<Rightarrow> (server_error, next_query t)
      | Some None \<Rightarrow> (not_found, next_query t)
      | Some (Some it) \<Rightarrow>
          let v = formatItemResponse_r it;
              r = \<lparr>r_id = item_id v, r_inventory_name = inventory_name v,
                   r_description = description v\<rparr>;
              r' = (if has_photo = Some ''on''
                    then (if truthy (photo v)
                          then r\<lparr>r_description := r_description r @ '' [Photo: '' @ nullish (photo v) []
                                                   @ '' ]''\<rparr>
                          else r\<lparr>r_description := r_description r @ '' [No photo available]''\<rparr>)
                    else r)
          in (\<lparr>status = 200, body = Json_responseItem r'\<rparr>, next_query t))"

subsection \<open>Requests and runs\<close>

datatype request =
    Register "string option" "string option" "string option"
  | List_all
  | Get string
  | Update string "string option" "string option"
  | Put_photo string "string option"
  | Delete string
  | Search "string option" "string option"

fun step_f :: "fstate \<Rightarrow> request \<Rightarrow> response \<times> fstate" where
  "step_f s (Register name descr file) = register_f s name descr file"
| "step_f s List_all = list_f s"
| "step_f s (Get p) = get_f s p"
| "step_f s (Update p name descr) = update_f s p name descr"
| "step_f s (Put_photo p file) = put_photo_f s p file"
| "step_f s (Delete p) = delete_f s p"
| "step_f s (Search i h) = search_f s i h"

fun step_r :: "rstate \<Rightarrow> request \<Rightarrow> response \<times> rstate" where
  "step_r t (Register name descr file) = register_r t name descr file"
| "step_r t List_all = list_r t"
| "step_r t (Get p) = get_r t p"
| "step_r t (Update p name descr) = update_r t p name descr"
| "step_r t (Put_photo p file) = put_photo_r t p file"
| "step_r t (Delete p) = delete_r t p"
| "step_r t (Search i h) = search_r t i h"

text \<open>The state after a sequence of requests, served one after the other.\<close>

fun run_f :: "fstate \<Rightarrow> request list \<Rightarrow> fstate" where
  "run_f s [] = s"
| "run_f s (r # rs) = run_f (snd (step_f s r)) rs"

fun run_r :: "rstate \<Rightarrow> request list \<Rightarrow> rstate" where
  "run_r t [] = t"
| "run_r t (r # rs) = run_r (snd (step_r t r)) rs"

subsection \<open>Example states\<close>

text \<open>
  The flat-file server started on an empty cache directory, and the same server after
  \<^verbatim>\<open>POST /register\<close> with name \<^verbatim>\<open>Drill\<close>, description \<^verbatim>\<open>cordless\<close> and a photo that
  the middleware stored as \<^verbatim>\<open>a1b2\<close>. Likewise for the relational server.
\<close>

definition fresh_f :: fstate where
  "fresh_f = startup ''localhost'' ''3000'' None {}"

definition drill :: item where
  "drill = \<lparr>item_id = 1, inventory_name = ''Drill'', description = ''cordless'',
            photo = Some ''a1b2''\<rparr>"

definition drill_f :: fstate where
  "drill_f = snd (register_f fresh_f (Some ''Drill'') (Some ''cordless'') (Some ''a1b2''))"

text \<open>
  The flat-file server started on an \<^verbatim>\<open>inventory.json\<close> whose counter stands at
  \<open>2^53 = 9007199254740992\<close> and whose list is empty: the file that the program has
  written when that many minus one items have been registered and all of them deleted.
\<close>

definition limit_f :: fstate where
  "limit_f = startup ''localhost'' ''3000'' (Some \<lparr>nextId = 2 ^ 53, list = []\<rparr>) {}"

definition fresh_r :: rstate where
  "fresh_r = \<lparr>table = [], serial = 1, cache = {}, faults = [], trace = []\<rparr>"

definition drill_r :: rstate where
  "drill_r = snd (register_r fresh_r (Some ''Drill'') (Some ''cordless'') (Some ''a1b2''))"

subsection \<open>The search handler on a store of objects\<close>

text \<open>
  In the program the elements of \<^verbatim>\<open>inventory.list\<close> are references to objects, and an
  assignment to a property of an object is seen through every reference to it. To show
  that a search leaves the stored items alone, the handler of the flat-file variant is
  written once more over a store of objects: \<open>cells\<close> maps an address to the object
  there, \<open>refs\<close> is \<^verbatim>\<open>inventory.list\<close> as a list of addresses, and the addresses from
  \<open>next_free\<close> on are unused. \<^verbatim>\<open>{ ...item, photo: photoUrl }\<close> and the rest pattern
  \<^verbatim>\<open>{ photo, ...responseItem }\<close> each create a new object, and
  \<^verbatim>\<open>responseItem.description += ...\<close> assigns to the second of them.
\<close>

datatype obj = Item_obj item | Response_obj responseItem

record store =
  cells :: "nat \<Rightarrow> obj option"
  refs :: "nat list"
  next_free :: nat

definition deref :: "store \<Rightarrow> nat \<Rightarrow> item option" where
  "deref h a = (case cells h a of Some (Item_obj v) \<Rightarrow> Some v | _ \<Rightarrow> None)"

definition alloc :: "obj \<Rightarrow> store \<Rightarrow> nat \<times> store" where
  "alloc x h = (next_free h, h\<lparr>cells := (cells h)(next_free h \<mapsto> x), next_free := Suc (next_free h)\<rparr>)"

definition append_description :: "nat \<Rightarrow> string \<Rightarrow> store \<Rightarrow> store" where
  "append_description c txt h =
     (case cells h c of
        Some (Response_obj r) \<Rightarrow>
          h\<lparr>cells := (cells h)(c \<mapsto> Response_obj (r\<lparr>r_description := r_description r @ txt\<rparr>))\<rparr>
      | _ \<Rightarrow> h)"

definition search_store ::
  "string \<Rightarrow> string \<Rightarrow> store \<Rightarrow> string option \<Rightarrow> string option \<Rightarrow> response \<times> store" where
  "search_store hst prt h i has_photo =
     (case find (\<lambda>a. case deref h a of None \<Rightarrow> False | Some v \<Rightarrow> Num (item_id v) = parseInt_js i)
             (refs h) of
        None \<Rightarrow> (not_found, h)
      | Some a \<Rightarrow>
          (case deref h a of
             None \<Rightarrow> (not_found, h)
           | Some it \<Rightarrow>
               let v = it\<lparr>photo :=
                         (if truthy (photo it)
                          then Some (''http://'' @ hst @ '':'' @ prt @ ''/inventory/''
                                     @ show_int (item_id it) @ ''/photo'')
                          else None)\<rparr>;
                   (b, h1) = alloc (Item_obj v) h;
                   (c, h2) = alloc (Response_obj \<lparr>r_id = item_id v,
                               r_inventory_name = inventory_name v,
                               r_description = description v\<rparr>) h1;
                   h3 = (if has_photo = Some ''on''
                         then (if truthy (photo v)
                               then append_description c
                                      ('' [Photo:'' @ nullish (photo v) [] @ '']'') h2
                               else append_description c '' [No photo available]'' h2)
                         else h2)
               in (\<lparr>status = 200,
                    body = (case cells h3 c of
                              Some (Response_obj r) \<Rightarrow> Json_responseItem r
                            | _ \<Rightarrow> Json_undefined)\<rparr>, h3)))"

text \<open>
  A store is well formed when every element of the list is the address of an item below
  \<open>next_free\<close>; \<open>stored_items\<close> is the list of items that \<open>refs\<close> denotes.
\<close>

definition wf_store :: "store \<Rightarrow> bool" where
  "wf_store h = list_all (\<lambda>a. a < next_free h \<and> deref h a \<noteq> None) (refs h)"

definition stored_items :: "store \<Rightarrow> item list" where
  "stored_items h = List.map_filter (deref h) (refs h)"

definition drill_store :: store where
  "drill_store = \<lparr>cells = [0 \<mapsto> Item_obj drill], refs = [0], next_free = 1\<rparr>"

subsection \<open>Properties of states, requests and logs\<close>

text \<open>
  Invariant I1 on the inventory: every id in the list is below \<open>nextId\<close> and no two
  items have the same id.
\<close>

definition ids_fresh :: "inventory \<Rightarrow> bool" where
  "ids_fresh iv =
     ((\<forall>v \<in> set (list iv). item_id v < nextId iv) \<and> distinct (map item_id (list iv)))"

text \<open>The id that a request was given: the id in the answer to a registration.\<close>

definition issued_id :: "request \<Rightarrow> response \<Rightarrow> int list" where
  "issued_id r a =
     (case r of
        Register _ _ _ \<Rightarrow> (case body a of Json_item v \<Rightarrow> [item_id v] | _ \<Rightarrow> [])
      | _ \<Rightarrow> [])"

fun issued_ids :: "fstate \<Rightarrow> request list \<Rightarrow> int list" where
  "issued_ids s [] = []"
| "issued_ids s (r # rs) = issued_id r (fst (step_f s r)) @ issued_ids (snd (step_f s r)) rs"

text \<open>
  The number of registrations in a sequence of requests, and the counters from which
  \<^verbatim>\<open>nextId += 1\<close> is exact: those of magnitude up to \<open>2^53\<close> with a successor up to
  \<open>2^53\<close>.
\<close>

fun registrations :: "request list \<Rightarrow> nat" where
  "registrations [] = 0"
| "registrations (Register _ _ _ # rs) = Suc (registrations rs)"
| "registrations (_ # rs) = registrations rs"

definition exact_counter :: "int \<Rightarrow> bool" where
  "exact_counter n = (- (2 ^ 53) \<le> n \<and> n < 2 ^ 53)"




text \<open>
  An effect that changes the record store, and whether a log removes the file \<open>f\<close>
  before its first change of the record store.
\<close>

fun is_record_write :: "effect \<Rightarrow> bool" where
  "is_record_write (Stored _) = False"
| "is_record_write (Unlinked _) = False"
| "is_record_write _ = True"

definition unlinked_before_record :: "string \<Rightarrow> effect list \<Rightarrow> bool" where
  "unlinked_before_record f es = (Unlinked f \<in> set (takeWhile (\<lambda>e. \<not> is_record_write e) es))"

subsection \<open>Comparing the two variants\<close>

text \<open>
  The base of the photo locators of the flat-file variant; the relational variant
  answers with locators relative to the server. \<open>rebase b v\<close> puts the base \<open>b\<close> in front
  of the locator of a view.
\<close>

definition base_f :: "fstate \<Rightarrow> string" where
  "base_f s = ''http://'' @ host s @ '':'' @ port s"

definition rebase :: "string \<Rightarrow> item \<Rightarrow> item" where
  "rebase b v = v\<lparr>photo := map_option (\<lambda>u. b @ u) (photo v)\<rparr>"

text \<open>
  Two answers are the same up to the locator base when they have the same status and
  the same body, where the views of items may differ by the base. A list of views is
  compared as a multiset, since \<^verbatim>\<open>SELECT * FROM inventory\<close> does not fix an order.
\<close>

fun same_body :: "string \<Rightarrow> body \<Rightarrow> body \<Rightarrow> bool" where
  "same_body b (Json_item v) (Json_item w) = (v = rebase b w)"
| "same_body b (Json_items vs) (Json_items ws) = (mset vs = mset (map (rebase b) ws))"
| "same_body b x y = (x = y)"

definition same_response :: "string \<Rightarrow> response \<Rightarrow> response \<Rightarrow> bool" where
  "same_response b a c = (status a = status c \<and> same_body b (body a) (body c))"

text \<open>
  The two stores hold the same records: the same items, the same next id, ids that
  satisfy I1, and a database whose queries do not fail.
\<close>

definition corresponds :: "fstate \<Rightarrow> rstate \<Rightarrow> bool" where
  "corresponds s t =
     (list (inventory s) = table t \<and> nextId (inventory s) = serial t
      \<and> ids_fresh (inventory s) \<and> faults t = [])"

text \<open>
  An id text that both variants read as the same integer: \<^verbatim>\<open>Number\<close>, respectively
  \<^verbatim>\<open>parseInt\<close> for a search, and the database. A search without an id finds nothing in
  either variant.
\<close>

definition id_agrees :: "string \<Rightarrow> bool" where
  "id_agrees p = (case pg_int p of None \<Rightarrow> False | Some k \<Rightarrow> Number_js p = Num k)"

definition search_id_agrees :: "string option \<Rightarrow> bool" where
  "search_id_agrees i =
     (case i of
        None \<Rightarrow> True
      | Some p \<Rightarrow> (case pg_int p of None \<Rightarrow> False | Some k \<Rightarrow> parseInt_js (Some p) = Num k))"

text \<open>
  The requests on which the variants are compared: those whose id text both read alike,
  except a search with the photo hint for an item that has a photo; and a registration
  while the counter of the flat-file variant is one from which \<^verbatim>\<open>nextId += 1\<close> is
  exact, as the sequence of the table is an integer that is incremented exactly.
\<close>

fun comparable :: "fstate \<Rightarrow> request \<Rightarrow> bool" where
  "comparable s (Register _ _ _) = exact_counter (nextId (inventory s))"
| "comparable s List_all = True"
| "comparable s (Get p) = id_agrees p"
| "comparable s (Update p _ _) = id_agrees p"
| "comparable s (Put_photo p _) = id_agrees p"
| "comparable s (Delete p) = id_agrees p"
| "comparable s (Search i h) =
     (search_id_agrees i \<and>
      (h \<noteq> Some ''on'' \<or>
       (case find_id (parseInt_js i) (list (inventory s)) of
          None \<Rightarrow> True
        | Some it \<Rightarrow> \<not> truthy (photo it))))"

fun comparable_run :: "fstate \<Rightarrow> request list \<Rightarrow> bool" where
  "comparable_run s [] = True"
| "comparable_run s (r # rs) = (comparable s r \<and> comparable_run (snd (step_f s r)) rs)"

text \<open>The answers to a sequence of requests.\<close>

fun answers_f :: "fstate \<Rightarrow> request list \<Rightarrow> response list" where
  "answers_f s [] = []"
| "answers_f s (r # rs) = fst (step_f s r) # answers_f (snd (step_f s r)) rs"

fun answers_r :: "rstate \<Rightarrow> request list \<Rightarrow> response list" where
  "answers_r t [] = []"
| "answers_r t (r # rs) = fst (step_r t r) # answers_r (snd (step_r t r)) rs"

section \<open>Integers as doubles\<close>

text \<open>
  \<open>bits\<close> is the length of the binary numeral, so that \<open>ilog2\<close> of a positive integer
  is one less; an integer of magnitude up to \<open>2^53\<close> is a multiple of the unit of its
  binade and is rounded to itself.
\<close>

lemma bits_bounds: "0 < n \<Longrightarrow> 2 ^ (bits n - 1) \<le> n \<and> n < 2 ^ bits n"
proof (induction n rule: bits.induct)
  case (1 n)
  show ?case
  proof (cases "n div 2 = 0")
    case True
    with 1(2) have "n = 1" by auto
    then show ?thesis by (simp add: bits.simps)
  next
    case False
    then have p: "0 < n div 2" by simp
    from 1(2) have n: "n \<noteq> 0" by simp
    from 1(1) [OF n p] have a: "2 ^ (bits (n div 2) - 1) \<le> n div 2" and b: "n div 2 < 2 ^ bits (n div 2)"
      by simp_all
    from p have bp: "0 < bits (n div 2)" by (simp add: bits.simps [of "n div 2"])
    have e: "bits n = Suc (bits (n div 2))" using n by (simp add: bits.simps [of n])
    have "(2::nat) ^ (bits n - 1) = 2 * 2 ^ (bits (n div 2) - 1)"
      using bp e by (cases "bits (n div 2)") simp_all
    also have "\<dots> \<le> 2 * (n div 2)" using a by simp
    also have "\<dots> \<le> n" by simp
    finally have l: "2 ^ (bits n - 1) \<le> n" .
    have "n < 2 * (n div 2) + 2" by presburger
    also have "\<dots> \<le> 2 * 2 ^ bits (n div 2)" using b by simp
    finally have "n < 2 ^ bits n" using e by simp
    with l show ?thesis by simp
  qed
qed

lemma ilog2_int:
  assumes "0 < m"
  shows "ilog2 (of_int m) = int (bits (nat m)) - 1"
    and "(2::int) ^ (bits (nat m) - 1) \<le> m" and "m < 2 ^ bits (nat m)" and "0 < bits (nat m)"
proof -
  from assms have p: "0 < nat m" by simp
  note b = bits_bounds [OF p]
  from b have "int (2 ^ (bits (nat m) - 1)) \<le> int (nat m)"
    by (simp only: of_nat_le_iff)
  with assms show l: "(2::int) ^ (bits (nat m) - 1) \<le> m" by simp
  from b have "int (nat m) < int (2 ^ bits (nat m))"
    by (simp only: of_nat_less_iff)
  with assms show "m < 2 ^ bits (nat m)" by simp
  from p show bp: "0 < bits (nat m)" by (simp add: bits.simps [of "nat m"])
  have b1: "bits (Suc 0) = 1" by (simp add: bits.simps)
  from bp have n: "nat (int (bits (nat m)) - 1) = bits (nat m) - 1" by simp
  have "(of_int ((2::int) ^ (bits (nat m) - 1)) :: rat) \<le> of_int m"
    using l by (simp only: of_int_le_iff)
  then have "pow2 (int (bits (nat m)) - 1) \<le> of_int m"
    using bp by (simp add: pow2_def n)
  then show "ilog2 (of_int m) = int (bits (nat m)) - 1"
    by (simp add: ilog2_def b1 Let_def)
qed

lemma round_half_even_int: "round_half_even (of_int z) = z"
  by (simp add: round_half_even_def)

lemma to_double_pos:
  assumes "0 < m" and "m \<le> 2 ^ 53"
  shows "\<exists>z. (of_int m :: rat) / pow2 (max (ilog2 (of_int m)) (- 1022) - 52) = of_int z"
proof -
  let ?b = "bits (nat m)"
  note i = ilog2_int [OF assms(1)]
  have le: "?b - 1 \<le> 53"
  proof (rule ccontr)
    assume "\<not> ?b - 1 \<le> 53"
    then have "54 \<le> ?b - 1" by simp
    then have "(2::int) ^ 54 \<le> 2 ^ (?b - 1)" by (rule power_increasing) simp
    with i(2) assms(2) show False by simp
  qed
  have mx: "max (ilog2 (of_int m)) (- 1022) - 52 = int ?b - 53"
    using i(1) i(4) by simp
  show ?thesis
  proof (cases "?b - 1 = 53")
    case True
    with i(2) assms(2) have m: "m = 2 ^ 53" by simp
    from True i(4) have "int ?b - 53 = 1" by simp
    then have "pow2 (int ?b - 53) = 2" by (simp add: pow2_def)
    then have q: "pow2 (max (ilog2 (of_int m)) (- 1022) - 52) = 2"
      unfolding mx .
    have "(of_int m :: rat) / 2 = of_int (2 ^ 52)"
      using m by simp
    then show ?thesis unfolding q ..
  next
    case False
    with le have l: "?b \<le> 53" by simp
    then have "pow2 (int ?b - 53) = 1 / 2 ^ (53 - ?b)"
      by (cases "?b = 53") (simp_all add: pow2_def nat_diff_distrib) 
    then have "(of_int m :: rat) / pow2 (max (ilog2 (of_int m)) (- 1022) - 52) = of_int (m * 2 ^ (53 - ?b))"
      unfolding mx by simp
    then show ?thesis ..
  qed
qed

lemma pow2_pos: "0 < pow2 e"
  by (simp add: pow2_def)

lemma to_double_int:
  assumes "\<bar>m\<bar> \<le> 2 ^ 53"
  shows "to_double (of_int m) = Num m"
proof (cases "m = 0")
  case True
  then show ?thesis by (simp add: to_double_def)
next
  case False
  let ?a = "\<bar>m\<bar>"
  let ?u = "pow2 (max (ilog2 (of_int ?a)) (- 1022) - 52)"
  from False have p: "0 < ?a" by simp
  from to_double_pos [OF p assms] obtain z where z: "(of_int ?a :: rat) / ?u = of_int z" ..
  have u: "?u \<noteq> 0" using pow2_pos [of "max (ilog2 (of_int ?a)) (- 1022) - 52"] by simp
  have d: "of_int (round_half_even (of_int ?a / ?u)) * ?u = (of_int ?a :: rat)"
    using u by (simp only: z round_half_even_int) (simp add: z [symmetric])
  have "(of_int ?a :: rat) \<le> of_int (2 ^ 53)"
    using assms by (simp only: of_int_le_iff)
  also have "\<dots> < 2 ^ 1024" by simp
  finally have big: "\<not> pow2 1024 \<le> (of_int ?a :: rat)"
    by (simp add: pow2_def)
  have ab: "\<bar>of_int m :: rat\<bar> = of_int ?a" by simp
  have nz: "(of_int m :: rat) \<noteq> 0" using False by simp
  show ?thesis
    unfolding to_double_def Let_def ab d using nz big False
    by (simp only: if_False floor_of_int) auto
qed

lemma increment_exact:
  "exact_counter n \<Longrightarrow> increment n = n + 1"
proof -
  assume "exact_counter n"
  then have "\<bar>n + 1\<bar> \<le> 2 ^ 53" by (simp add: exact_counter_def abs_le_iff)
  from to_double_int [OF this] show ?thesis
    by (simp add: increment_def)
qed

text \<open>
  \<^verbatim>\<open>nextId += 1\<close> is exact from a counter of magnitude up to \<open>2^53\<close> whose successor is
  at most \<open>2^53\<close>, and leaves the counter \<open>2^53\<close> as it is: \<open>2^53 + 1\<close> lies halfway
  between the doubles \<open>2^53\<close> and \<open>2^53 + 2\<close>, and the mantissa of \<open>2^53\<close> is even.
\<close>

lemma to_double_nat: "n \<le> 2 ^ 53 \<Longrightarrow> to_double (of_nat n) = Num (int n)"
proof -
  assume "n \<le> 2 ^ 53"
  then have "int n \<le> int (2 ^ 53)" by (simp only: of_nat_le_iff)
  then have "\<bar>int n\<bar> \<le> 2 ^ 53" by simp
  from to_double_int [OF this] show ?thesis by simp
qed

lemma floor_half: "\<lfloor>(9007199254740993::rat) / 2\<rfloor> = 4503599627370496"
  by (rule floor_unique) simp_all

lemma increment_limit: "increment (2 ^ 53) = 2 ^ 53"
proof -
  have b: "bits 9007199254740993 = 54"
    by (simp add: bits.simps)
  have i: "ilog2 9007199254740993 = 53"
    using ilog2_int(1) [of 9007199254740993] by (simp add: b)
  have r: "round_half_even (9007199254740993 / 2) = 4503599627370496"
    by (simp add: round_half_even_def Let_def floor_half)
  have p: "pow2 1 = 2"
    by (simp add: pow2_def)
  have g: "\<not> pow2 1024 \<le> 9007199254740992"
    by (simp add: pow2_def)
  have "to_double 9007199254740993 = Num 9007199254740992"
    using g by (simp add: to_double_def Let_def i p r)
  then show ?thesis
    by (simp add: increment_def)
qed

lemma increment_1: "increment 1 = 2"
  using increment_exact [of 1] by (simp add: exact_counter_def)

lemma increment_2: "increment 2 = 3"
  using increment_exact [of 2] by (simp add: exact_counter_def)

text \<open>
  A number that is at least \<open>2^53\<close> is rounded to a double that is at least \<open>2^53\<close>. So
  the only numeral that reads back as an integer below \<open>2^53\<close> is its own, and such an
  integer is printed as its decimal numeral.
\<close>

lemma round_half_even_ge: "of_int z \<le> m \<Longrightarrow> z \<le> round_half_even m"
proof -
  assume "of_int z \<le> m"
  then have "z \<le> \<lfloor>m\<rfloor>" by (simp add: le_floor_iff)
  then show ?thesis by (simp add: round_half_even_def Let_def)
qed

lemma to_double_large:
  assumes "2 ^ 53 \<le> m" and "to_double (of_int m) = Num k"
  shows "2 ^ 53 \<le> k"
proof -
  let ?b = "bits (nat m)"
  from assms(1) have pos: "0 < m" by simp
  note i = ilog2_int [OF pos]
  have b: "54 \<le> ?b"
  proof (rule ccontr)
    assume "\<not> 54 \<le> ?b"
    then have "?b \<le> 53" by simp
    then have "(2::int) ^ ?b \<le> 2 ^ 53" by (rule power_increasing) simp
    with i(3) assms(1) show False by simp
  qed
  let ?u = "(2::rat) ^ (?b - 54)"
  have mx: "max (ilog2 (of_int m)) (- 1022) - 52 = int ?b - 53"
    using i(1) i(4) by simp
  have "nat (int ?b - 53) = Suc (?b - 54)" using b by simp
  then have pw: "pow2 (int ?b - 53) = 2 * ?u"
    using b by (simp add: pow2_def)
  have "?b - 1 = 53 + (?b - 54)" using b by simp
  then have "(2::int) ^ (?b - 1) = 2 ^ 53 * 2 ^ (?b - 54)"
    by (simp only: power_add)
  with i(2) have "2 ^ 53 * 2 ^ (?b - 54) \<le> m" by simp
  then have "(of_int (2 ^ 53 * 2 ^ (?b - 54)) :: rat) \<le> of_int m"
    by (simp only: of_int_le_iff)
  then have m1: "(2 ^ 53 :: rat) * ?u \<le> of_int m" by simp
  have up: "0 < 2 * ?u" by simp
  have "(2 ^ 52 :: rat) * (2 * ?u) = 2 ^ 53 * ?u" by simp
  with m1 have "(2 ^ 52 :: rat) * (2 * ?u) \<le> of_int m" by simp
  then have "(2 ^ 52 :: rat) \<le> of_int m / (2 * ?u)"
    using up by (simp only: pos_le_divide_eq)
  then have "(of_int (2 ^ 52) :: rat) \<le> of_int m / (2 * ?u)" by simp
  then have r: "2 ^ 52 \<le> round_half_even (of_int m / (2 * ?u))"
    by (rule round_half_even_ge)
  define w where "w = round_half_even (of_int m / (2 * ?u))"
  from r have w: "2 ^ 52 \<le> w" by (simp only: w_def)
  then have "(of_int (2 ^ 52) :: rat) \<le> of_int w"
    by (simp only: of_int_le_iff)
  then have w2: "(2 ^ 52 :: rat) \<le> of_int w" by simp
  have "(2 ^ 52 :: rat) * 2 \<le> of_int w * (2 * ?u)"
    using w2 by (intro mult_mono) simp_all
  then have "(of_int (2 ^ 53) :: rat) \<le> of_int w * (2 * ?u)" by simp
  then have f: "2 ^ 53 \<le> \<lfloor>of_int w * (2 * ?u)\<rfloor>" by (simp only: le_floor_iff)
  have ab: "\<bar>of_int m :: rat\<bar> = of_int m" using pos by simp
  have nz: "(of_int m :: rat) \<noteq> 0" "\<not> (of_int m :: rat) < 0" using pos by simp_all
  have "to_double (of_int m) =
      (if pow2 1024 \<le> of_int w * (2 * ?u) then Other
       else if of_int \<lfloor>of_int w * (2 * ?u)\<rfloor> = of_int w * (2 * ?u)
            then Num \<lfloor>of_int w * (2 * ?u)\<rfloor> else Other)"
    unfolding to_double_def Let_def ab mx pw w_def using nz by (simp only: if_False)
  with assms(2) have "k = \<lfloor>of_int w * (2 * ?u)\<rfloor>"
    by (auto split: if_splits)
  with f show ?thesis by simp
qed

lemma reads_back_small:
  assumes "x < 2 ^ 53" and "reads_back x c"
  shows "c = x"
proof (cases "c \<le> 2 ^ 53")
  case True
  from to_double_nat [OF True] assms(2) show ?thesis
    by (simp add: reads_back_def)
next
  case False
  then have "2 ^ 53 \<le> int c" by simp
  moreover from assms(2) have "to_double (of_int (int c)) = Num (int x)"
    by (simp add: reads_back_def)
  ultimately have "2 ^ 53 \<le> int x" by (rule to_double_large)
  moreover from assms(1) have "int x < int (2 ^ 53)" by (simp only: of_nat_less_iff)
  ultimately show ?thesis by simp
qed

lemma shortest_small: "x < 2 ^ 53 \<Longrightarrow> shortest x = x"
proof -
  assume a: "x < 2 ^ 53"
  show ?thesis
  proof (cases "find (reads_back x) (candidates x)")
    case None
    then show ?thesis by (simp add: shortest_def)
  next
    case (Some c)
    then have "reads_back x c" by (auto simp: find_Some_iff)
    with a have "c = x" by (rule reads_back_small)
    with Some show ?thesis by (simp add: shortest_def)
  qed
qed

lemma length_digits_of: "0 < n \<Longrightarrow> x < 10 ^ n \<Longrightarrow> length (digits_of x) \<le> n"
proof (induction n arbitrary: x)
  case 0
  then show ?case by simp
next
  case (Suc n)
  show ?case
  proof (cases "x < 10")
    case True
    then show ?thesis by (simp add: digits_of.simps [of x])
  next
    case False
    with Suc.prems have n: "0 < n" by (cases n) simp_all
    from Suc.prems have "x div 10 < 10 ^ n" by (simp add: less_mult_imp_div_less mult.commute)
    from Suc.IH [OF n this] False show ?thesis
      by (simp add: digits_of.simps [of x])
  qed
qed

lemma number_string_small: "x < 2 ^ 53 \<Longrightarrow> number_string x = digits_of x"
proof -
  assume a: "x < 2 ^ 53"
  then have "x < 10 ^ 16" by simp
  then have "length (digits_of x) \<le> 16" by (intro length_digits_of) simp_all
  with a show ?thesis
    by (simp add: number_string_def shortest_small Let_def)
qed

lemma show_int_decimal:
  "\<bar>k\<bar> < 2 ^ 53 \<Longrightarrow>
     show_int k = (if k < 0 then CHR ''-'' # digits_of (nat (- k)) else digits_of (nat k))"
proof -
  assume "\<bar>k\<bar> < 2 ^ 53"
  then have "nat (- k) < 2 ^ 53" "nat k < 2 ^ 53" by (simp_all add: nat_less_iff)
  then show ?thesis
    by (simp add: show_int_def number_string_small)
qed

section \<open>Evaluation at the example states\<close>

lemma show_int_1: "show_int 1 = ''1''"
proof -
  have d: "digits_of (Suc 0) = ''1''"
    by (simp add: digits_of.simps)
  have r: "reads_back 1 1"
    using to_double_nat [of 1] by (simp add: reads_back_def)
  have "candidates 1 = [1, 2]"
    by code_simp
  with r have "shortest 1 = 1"
    by (simp add: shortest_def)
  then show ?thesis
    by (simp add: show_int_def number_string_def d)
qed

lemma Number_js_1: "Number_js ''1'' = Num 1"
  by code_simp

lemma Number_js_0x1: "Number_js ''0x1'' = Num 1"
  by code_simp

lemma Number_js_abc: "Number_js ''abc'' = NaN"
  by code_simp

lemma parseInt_js_1: "parseInt_js (Some ''1'') = Num 1"
  by code_simp

lemma pg_int_1: "pg_int ''1'' = Some 1"
  by code_simp

lemma fresh_f_eq:
  "fresh_f = \<lparr>host = ''localhost'', port = ''3000'', inventory = \<lparr>nextId = 1, list = []\<rparr>,
     dbFile = \<lparr>nextId = 1, list = []\<rparr>, uploads = {},
     log = [Written \<lparr>nextId = 1, list = []\<rparr>]\<rparr>"
  by (simp add: fresh_f_def startup_def)

lemma drill_f_eq:
  "drill_f = \<lparr>host = ''localhost'', port = ''3000'', inventory = \<lparr>nextId = 2, list = [drill]\<rparr>,
     dbFile = \<lparr>nextId = 2, list = [drill]\<rparr>, uploads = {''a1b2''},
     log = [Written \<lparr>nextId = 1, list = []\<rparr>, Stored ''a1b2'',
            Written \<lparr>nextId = 2, list = [drill]\<rparr>]\<rparr>"
  by (simp add: drill_f_def fresh_f_eq register_f_def multer_def writeFileSync_def nullish_def
      drill_def Let_def increment_1)

lemma drill_r_eq:
  "drill_r = \<lparr>table = [drill], serial = 2, cache = {''a1b2''}, faults = [],
     trace = [Stored ''a1b2'', Inserted drill]\<rparr>"
  by (simp add: drill_r_def fresh_r_def register_r_def multer_r_def nullish_def drill_def Let_def
      query_fails_def next_query_def)

lemma find_drill_f: "find_id (Num 1) (list (inventory drill_f)) = Some drill"
  by (simp add: drill_f_eq find_id_def drill_def)

lemma select_drill_r: "select_by_id (Some ''1'') drill_r = Some (Some drill)"
  by (simp add: select_by_id_def query_fails_def drill_r_eq pg_int_1 drill_def)

section \<open>Registration without a name\<close>

lemma register_f_invalid:
  "\<not> truthy name \<Longrightarrow>
     register_f s name descr file = (\<lparr>status = 400, body = Text ''Name required''\<rparr>, multer file s)"
  by (simp add: register_f_def Let_def)

lemma register_r_invalid:
  "\<not> truthy name \<Longrightarrow>
     register_r t name descr file =
       (\<lparr>status = 400, body = Text ''Name required''\<rparr>, discard_upload_r file (multer_r file t))"
  by (simp add: register_r_def Let_def)

lemma register_r_invalid_cache:
  "\<not> truthy name \<Longrightarrow>
     cache (snd (register_r t name descr (Some f))) = cache t - {f}
     \<and> table (snd (register_r t name descr (Some f))) = table t"
  by (simp add: register_r_invalid discard_upload_r_def multer_r_def unlinkSync_r_def)

text \<open>
  C2. A registration whose name is empty is answered with 400 and creates no item. In
  the flat-file variant the inventory and \<^verbatim>\<open>inventory.json\<close> are unchanged, but the
  upload that came with the request stays in the uploads directory; the relational
  variant removes it before answering.
\<close>

theorem register_f_empty_name_keeps_upload:
  "fst (register_f fresh_f (Some '''') (Some ''cordless'') (Some ''a1b2''))
     = \<lparr>status = 400, body = Text ''Name required''\<rparr>
   \<and> inventory (snd (register_f fresh_f (Some '''') (Some ''cordless'') (Some ''a1b2'')))
       = inventory fresh_f
   \<and> dbFile (snd (register_f fresh_f (Some '''') (Some ''cordless'') (Some ''a1b2'')))
       = dbFile fresh_f
   \<and> uploads fresh_f = {}
   \<and> uploads (snd (register_f fresh_f (Some '''') (Some ''cordless'') (Some ''a1b2'')))
       = {''a1b2''}
   \<and> fst (register_r fresh_r (Some '''') (Some ''cordless'') (Some ''a1b2''))
       = \<lparr>status = 400, body = Text ''Name required''\<rparr>
   \<and> cache (snd (register_r fresh_r (Some '''') (Some ''cordless'') (Some ''a1b2''))) = {}"
  by (simp add: register_f_invalid register_r_invalid multer_def multer_r_def fresh_f_eq
      fresh_r_def discard_upload_r_def unlinkSync_r_def)

section \<open>Search\<close>

lemma search_f_state: "snd (search_f s i h) = s"
  by (simp add: search_f_def Let_def split: option.split)

lemma search_r_state: "snd (search_r t i h) = next_query t"
  by (simp add: search_r_def Let_def split: option.split)

lemma next_query_no_faults: "faults t = [] \<Longrightarrow> next_query t = t"
  by (simp add: next_query_def)

text \<open>What a search with the hint answers for an item that is found.\<close>

lemma search_f_found:
  "find_id (parseInt_js i) (list (inventory s)) = Some it \<Longrightarrow>
   fst (search_f s i (Some ''on'')) =
     \<lparr>status = 200,
      body = Json_responseItem
        \<lparr>r_id = item_id it, r_inventory_name = inventory_name it,
         r_description = description it @
           (if truthy (photo it)
            then '' [Photo:'' @ ''http://'' @ host s @ '':'' @ port s @ ''/inventory/''
                 @ show_int (item_id it) @ ''/photo'' @ '']''
            else '' [No photo available]'')\<rparr>\<rparr>"
  by (simp add: search_f_def Let_def formatItemResponse_def nullish_def)

lemma search_r_found:
  "select_by_id i t = Some (Some it) \<Longrightarrow>
   fst (search_r t i (Some ''on'')) =
     \<lparr>status = 200,
      body = Json_responseItem
        \<lparr>r_id = item_id it, r_inventory_name = inventory_name it,
         r_description = description it @
           (if truthy (photo it)
            then '' [Photo: '' @ ''/inventory/'' @ show_int (item_id it) @ ''/photo'' @ '' ]''
            else '' [No photo available]'')\<rparr>\<rparr>"
  by (simp add: search_r_def Let_def formatItemResponse_r_def nullish_def)

text \<open>
  C6, as stated, fails on an item with a photo: the flat-file variant answers
  \<^verbatim>\<open>cordless [Photo:http://localhost:3000/inventory/1/photo]\<close>, where no space follows
  the colon and the photo locator stands in place of the stored reference, so the
  description is not the stored one followed by \<^verbatim>\<open>[Photo: <ref>]\<close> for any \<open>ref\<close>, with or
  without a separating space.
\<close>

theorem search_f_photo_marker_counterexample:
  "find_id (parseInt_js (Some ''1'')) (list (inventory drill_f)) = Some drill
   \<and> description drill = ''cordless'' \<and> photo drill = Some ''a1b2''
   \<and> fst (search_f drill_f (Some ''1'') (Some ''on'')) =
       \<lparr>status = 200,
        body = Json_responseItem
          \<lparr>r_id = 1, r_inventory_name = ''Drill'',
           r_description = ''cordless [Photo:http://localhost:3000/inventory/1/photo]''\<rparr>\<rparr>
   \<and> \<not> (\<exists>ref. ''cordless [Photo:http://localhost:3000/inventory/1/photo]''
              = description drill @ '' [Photo: '' @ ref @ '']'')
   \<and> \<not> (\<exists>ref. ''cordless [Photo:http://localhost:3000/inventory/1/photo]''
              = description drill @ ''[Photo: '' @ ref @ '']'')"
proof -
  have found: "find_id (parseInt_js (Some ''1'')) (list (inventory drill_f)) = Some drill"
    by (simp add: parseInt_js_1 find_drill_f)
  have "fst (search_f drill_f (Some ''1'') (Some ''on'')) =
       \<lparr>status = 200,
        body = Json_responseItem
          \<lparr>r_id = 1, r_inventory_name = ''Drill'',
           r_description = ''cordless [Photo:http://localhost:3000/inventory/1/photo]''\<rparr>\<rparr>"
    by (simp add: search_f_found [OF found]) (simp add: drill_def drill_f_eq show_int_1)
  with found show ?thesis
    by (simp add: drill_def)
qed

text \<open>
  C6, amended. For a search with \<^verbatim>\<open>has_photo = "on"\<close> that finds an item, the answer is
  200 and its description is the stored description followed by:
  \<^verbatim>\<open> [No photo available]\<close> when the item has no photo, in both variants;
  \<^verbatim>\<open> [Photo:<url>]\<close> in the flat-file variant and \<^verbatim>\<open> [Photo: <url> ]\<close> in the
  relational variant when it has one, where \<^verbatim>\<open><url>\<close> is the photo locator of the
  variant (\<^verbatim>\<open>http://host:port/inventory/<id>/photo\<close>, respectively
  \<^verbatim>\<open>/inventory/<id>/photo\<close>) and not the stored reference.
\<close>

theorem search_photo_markers:
  "(find_id (parseInt_js i) (list (inventory s)) = Some it \<longrightarrow>
      fst (search_f s i (Some ''on'')) =
        \<lparr>status = 200,
         body = Json_responseItem
           \<lparr>r_id = item_id it, r_inventory_name = inventory_name it,
            r_description = description it @
              (if truthy (photo it)
               then '' [Photo:'' @ ''http://'' @ host s @ '':'' @ port s @ ''/inventory/''
                    @ show_int (item_id it) @ ''/photo'' @ '']''
               else '' [No photo available]'')\<rparr>\<rparr>)
   \<and> (select_by_id j t = Some (Some row) \<longrightarrow>
      fst (search_r t j (Some ''on'')) =
        \<lparr>status = 200,
         body = Json_responseItem
           \<lparr>r_id = item_id row, r_inventory_name = inventory_name row,
            r_description = description row @
              (if truthy (photo row)
               then '' [Photo: '' @ ''/inventory/'' @ show_int (item_id row) @ ''/photo'' @ '' ]''
               else '' [No photo available]'')\<rparr>\<rparr>)"
  using search_f_found search_r_found by blast

theorem search_photo_markers_witness:
  "find_id (parseInt_js (Some ''1'')) (list (inventory drill_f)) = Some drill
   \<and> select_by_id (Some ''1'') drill_r = Some (Some drill)
   \<and> fst (search_f drill_f (Some ''1'') (Some ''on'')) =
        \<lparr>status = 200,
         body = Json_responseItem
           \<lparr>r_id = 1, r_inventory_name = ''Drill'',
            r_description = ''cordless [Photo:http://localhost:3000/inventory/1/photo]''\<rparr>\<rparr>
   \<and> fst (search_r drill_r (Some ''1'') (Some ''on'')) =
        \<lparr>status = 200,
         body = Json_responseItem
           \<lparr>r_id = 1, r_inventory_name = ''Drill'',
            r_description = ''cordless [Photo: /inventory/1/photo ]''\<rparr>\<rparr>"
proof -
  have f: "find_id (parseInt_js (Some ''1'')) (list (inventory drill_f)) = Some drill"
    by (simp add: parseInt_js_1 find_drill_f)
  note m = search_photo_markers [of "Some ''1''" drill_f drill "Some ''1''" drill_r drill]
  from m f have "fst (search_f drill_f (Some ''1'') (Some ''on'')) =
        \<lparr>status = 200,
         body = Json_responseItem
           \<lparr>r_id = 1, r_inventory_name = ''Drill'',
            r_description = ''cordless [Photo:http://localhost:3000/inventory/1/photo]''\<rparr>\<rparr>"
    by (simp add: drill_def drill_f_eq show_int_1)
  moreover from m select_drill_r have "fst (search_r drill_r (Some ''1'') (Some ''on'')) =
        \<lparr>status = 200,
         body = Json_responseItem
           \<lparr>r_id = 1, r_inventory_name = ''Drill'',
            r_description = ''cordless [Photo: /inventory/1/photo ]''\<rparr>\<rparr>"
    by (simp add: drill_def show_int_1)
  ultimately show ?thesis
    using f select_drill_r by simp
qed

section \<open>Lookup by id in the flat-file variant\<close>

lemma find_id_None: "(find_id n xs = None) = (\<forall>v \<in> set xs. Num (item_id v) \<noteq> n)"
  by (auto simp: find_id_def find_None_iff)

lemma find_id_Some_mem: "find_id n xs = Some it \<Longrightarrow> it \<in> set xs \<and> Num (item_id it) = n"
  by (auto simp: find_id_def find_Some_iff)

text \<open>
  C10, as stated, fails: \<^verbatim>\<open>0x1\<close> is not the decimal numeral of the id \<open>1\<close>, and
  \<^verbatim>\<open>GET /inventory/0x1\<close> answers 200 with that item, because \<^verbatim>\<open>Number("0x1")\<close> is \<open>1\<close>.
\<close>

theorem get_f_hex_id_counterexample:
  "list (inventory drill_f) = [drill]
   \<and> show_int (item_id drill) = ''1''
   \<and> ''0x1'' \<noteq> show_int (item_id drill)
   \<and> fst (get_f drill_f ''0x1'') =
       \<lparr>status = 200,
        body = Json_item (drill\<lparr>photo := Some ''http://localhost:3000/inventory/1/photo''\<rparr>)\<rparr>"
proof -
  have "fst (get_f drill_f ''0x1'') =
       \<lparr>status = 200,
        body = Json_item (drill\<lparr>photo := Some ''http://localhost:3000/inventory/1/photo''\<rparr>)\<rparr>"
    by (simp add: get_f_def Number_js_0x1 find_drill_f formatItemResponse_def)
       (simp add: drill_def drill_f_eq show_int_1)
  then show ?thesis
    by (simp add: drill_f_eq) (simp add: drill_def show_int_1)
qed

text \<open>
  C10, amended. In the flat-file variant \<^verbatim>\<open>GET /inventory/:id\<close> answers every id string
  without an error and without changing the state: with 404 exactly when
  \<^verbatim>\<open>Number(id)\<close> is the id of no stored item, in particular when it is \<open>NaN\<close>, and
  otherwise with 200 and the view of a stored item whose id is \<^verbatim>\<open>Number(id)\<close>. (A
  string other than the decimal numeral, such as \<^verbatim>\<open>0x1\<close>, finds the item when
  \<^verbatim>\<open>Number\<close> gives its id.)
\<close>

theorem get_f_total:
  "snd (get_f s p) = s
   \<and> ((fst (get_f s p) = not_found) = (\<forall>v \<in> set (list (inventory s)). Num (item_id v) \<noteq> Number_js p))
   \<and> (fst (get_f s p) = not_found
       \<or> (\<exists>it \<in> set (list (inventory s)). Num (item_id it) = Number_js p
             \<and> fst (get_f s p) = \<lparr>status = 200, body = Json_item (formatItemResponse s it)\<rparr>))
   \<and> (Number_js p = NaN \<longrightarrow> fst (get_f s p) = not_found)"
proof (cases "find_id (Number_js p) (list (inventory s))")
  case None
  then have "fst (get_f s p) = not_found" "snd (get_f s p) = s"
    by (simp_all add: get_f_def)
  with None show ?thesis
    by (simp add: find_id_None)
next
  case (Some it)
  then have r: "fst (get_f s p) = \<lparr>status = 200, body = Json_item (formatItemResponse s it)\<rparr>"
    and st: "snd (get_f s p) = s"
    by (simp_all add: get_f_def)
  from Some have mem: "it \<in> set (list (inventory s))" "Num (item_id it) = Number_js p"
    using find_id_Some_mem by blast+
  from r have nf: "fst (get_f s p) \<noteq> not_found"
    by (simp add: not_found_def)
  from mem have "Number_js p \<noteq> NaN"
    by auto
  with r st mem nf show ?thesis
    by auto
qed

theorem get_f_total_witness:
  "Number_js ''abc'' = NaN
   \<and> list (inventory drill_f) = [drill]
   \<and> Num (item_id drill) \<noteq> Number_js ''abc''
   \<and> fst (get_f drill_f ''abc'') = not_found
   \<and> snd (get_f drill_f ''abc'') = drill_f"
proof -
  have "fst (get_f drill_f ''abc'') = not_found" "snd (get_f drill_f ''abc'') = drill_f"
    using get_f_total [of drill_f "''abc''"] Number_js_abc by blast+
  then show ?thesis
    by (simp add: Number_js_abc drill_f_eq)
qed

section \<open>The inventory after each flat-file handler\<close>

lemma multer_inventory [simp]:
  "inventory (multer file s) = inventory s" "dbFile (multer file s) = dbFile s"
  "host (multer file s) = host s" "port (multer file s) = port s"
  by (simp_all add: multer_def split: option.split)

lemma unlink_photo_inventory [simp]:
  "inventory (unlink_photo it s) = inventory s" "dbFile (unlink_photo it s) = dbFile s"
  by (simp_all add: unlink_photo_def unlinkSync_def split: option.split)

lemma discard_upload_inventory [simp]:
  "inventory (discard_upload file s) = inventory s" "dbFile (discard_upload file s) = dbFile s"
  by (simp_all add: discard_upload_def unlinkSync_def split: option.split)

lemma register_f_inventory:
  "inventory (snd (register_f s name descr file)) =
     (if truthy name
      then \<lparr>nextId = increment (nextId (inventory s)),
            list = list (inventory s) @
              [\<lparr>item_id = nextId (inventory s), inventory_name = nullish name [],
                description = (if \<not> truthy descr then [] else nullish descr []), photo = file\<rparr>]\<rparr>
      else inventory s)"
  by (simp add: register_f_def Let_def writeFileSync_def)

lemma register_f_issued:
  "issued_id (Register name descr file) (fst (register_f s name descr file)) =
     (if truthy name then [nextId (inventory s)] else [])"
  by (simp add: issued_id_def register_f_def Let_def formatItemResponse_def)

lemma update_f_inventory:
  "inventory (snd (update_f s p name descr)) =
     (case find_id (Number_js p) (list (inventory s)) of
        None \<Rightarrow> inventory s
      | Some it \<Rightarrow>
          (inventory s)\<lparr>list :=
             mutate_found (\<lambda>v. Num (item_id v) = Number_js p)
               (\<lambda>_. it\<lparr>inventory_name := nullish name (inventory_name it),
                        description := nullish descr (description it)\<rparr>)
               (list (inventory s))\<rparr>)"
  by (simp add: update_f_def Let_def writeFileSync_def split: option.split)

lemma put_photo_f_inventory:
  "inventory (snd (put_photo_f s p file)) =
     (case find_id (Number_js p) (list (inventory s)) of
        None \<Rightarrow> inventory s
      | Some it \<Rightarrow>
          (inventory s)\<lparr>list :=
             mutate_found (\<lambda>v. Num (item_id v) = Number_js p) (\<lambda>_. it\<lparr>photo := file\<rparr>)
               (list (inventory s))\<rparr>)"
  by (simp add: put_photo_f_def Let_def writeFileSync_def split: option.split)

lemma delete_f_inventory:
  "inventory (snd (delete_f s p)) =
     (case find_id (Number_js p) (list (inventory s)) of
        None \<Rightarrow> inventory s
      | Some it \<Rightarrow>
          (inventory s)\<lparr>list :=
             drop_found (\<lambda>v. Num (item_id v) = Number_js p) (list (inventory s))\<rparr>)"
  by (simp add: delete_f_def Let_def writeFileSync_def split: option.split)

lemma get_f_state: "snd (get_f s p) = s"
  by (simp add: get_f_def split: option.split)

lemma list_f_state: "snd (list_f s) = s"
  by (simp add: list_f_def)

text \<open>Every handler that changes the inventory writes it to the file before it answers.\<close>

lemma step_f_persists:
  "inventory (snd (step_f s r)) = inventory s \<and> dbFile (snd (step_f s r)) = dbFile s
   \<or> dbFile (snd (step_f s r)) = inventory (snd (step_f s r))
     \<and> log (snd (step_f s r)) \<noteq> []
     \<and> last (log (snd (step_f s r))) = Written (inventory (snd (step_f s r)))"
proof (cases r)
  case (Register name descr upl)
  then show ?thesis
    by (simp add: register_f_def Let_def writeFileSync_def)
next
  case List_all
  then show ?thesis by (simp add: list_f_state)
next
  case (Get p)
  then show ?thesis by (simp add: get_f_state)
next
  case (Update p name descr)
  then show ?thesis
    by (simp add: update_f_def Let_def writeFileSync_def split: option.split)
next
  case (Put_photo p upl)
  then show ?thesis
    by (simp add: put_photo_f_def Let_def writeFileSync_def split: option.split)
next
  case (Delete p)
  then show ?thesis
    by (simp add: delete_f_def Let_def writeFileSync_def split: option.split)
next
  case (Search i h)
  then show ?thesis by (simp add: search_f_state)
qed

section \<open>Ids in the flat-file variant\<close>

lemma mutate_found_ids:
  "(\<And>x. x \<in> set xs \<Longrightarrow> P x \<Longrightarrow> item_id (f x) = item_id x) \<Longrightarrow>
     map item_id (mutate_found P f xs) = map item_id xs"
  by (induction xs) simp_all

lemma drop_found_subset: "set (drop_found P xs) \<subseteq> set xs"
  by (induction xs) auto

lemma drop_found_distinct:
  "distinct (map item_id xs) \<Longrightarrow> distinct (map item_id (drop_found P xs))"
proof (induction xs)
  case Nil
  then show ?case by simp
next
  case (Cons x xs)
  have "item_id ` set (drop_found P xs) \<subseteq> item_id ` set xs"
    using drop_found_subset [of P xs] by blast
  with Cons show ?case by auto
qed

lemma mutate_found_same_id:
  assumes "find_id n xs = Some it" and "item_id it' = item_id it"
  shows "map item_id (mutate_found (\<lambda>v. Num (item_id v) = n) (\<lambda>_. it') xs) = map item_id xs"
proof (rule mutate_found_ids)
  fix x
  assume "x \<in> set xs" and "Num (item_id x) = n"
  moreover from assms(1) have "Num (item_id it) = n"
    using find_id_Some_mem by blast
  ultimately have "item_id it = item_id x"
    by force
  with assms(2) show "item_id it' = item_id x"
    by simp
qed

lemma ids_fresh_same_ids:
  "ids_fresh iv \<Longrightarrow> map item_id xs = map item_id (list iv) \<Longrightarrow> ids_fresh (iv\<lparr>list := xs\<rparr>)"
proof -
  assume a: "ids_fresh iv" and b: "map item_id xs = map item_id (list iv)"
  from b have "item_id ` set xs = item_id ` set (list iv)"
    by (metis list.set_map)
  then have "\<forall>v \<in> set xs. \<exists>w \<in> set (list iv). item_id v = item_id w"
    by blast
  with a b show ?thesis
    by (fastforce simp: ids_fresh_def)
qed

lemma ids_fresh_drop:
  "ids_fresh iv \<Longrightarrow> ids_fresh (iv\<lparr>list := drop_found P (list iv)\<rparr>)"
  using drop_found_subset [of P "list iv"]
  by (auto simp: ids_fresh_def drop_found_distinct)

lemma register_f_ids:
  assumes "ids_fresh (inventory s)" and "exact_counter (nextId (inventory s))"
  shows "ids_fresh (inventory (snd (register_f s name descr upl)))
      \<and> nextId (inventory s) \<le> nextId (inventory (snd (register_f s name descr upl)))
      \<and> nextId (inventory (snd (register_f s name descr upl))) \<le> nextId (inventory s) + 1
      \<and> (\<forall>i \<in> set (issued_id (Register name descr upl) (fst (register_f s name descr upl))).
            i = nextId (inventory s)
            \<and> nextId (inventory (snd (register_f s name descr upl))) = i + 1)
      \<and> set (map item_id (list (inventory (snd (register_f s name descr upl)))))
           \<subseteq> set (map item_id (list (inventory s)))
             \<union> set (issued_id (Register name descr upl) (fst (register_f s name descr upl)))"
proof (cases "truthy name")
  case True
  from assms have "nextId (inventory s) \<notin> item_id ` set (list (inventory s))"
    by (auto simp: ids_fresh_def)
  with True assms show ?thesis
    by (simp add: register_f_inventory register_f_issued ids_fresh_def increment_exact) force
next
  case False
  with assms show ?thesis
    by (simp add: register_f_inventory register_f_issued)
qed

lemma update_f_ids:
  assumes "ids_fresh (inventory s)"
  shows "ids_fresh (inventory (snd (update_f s p name descr)))
      \<and> nextId (inventory (snd (update_f s p name descr))) = nextId (inventory s)
      \<and> map item_id (list (inventory (snd (update_f s p name descr))))
          = map item_id (list (inventory s))"
proof (cases "find_id (Number_js p) (list (inventory s))")
  case None
  with assms show ?thesis
    by (simp add: update_f_inventory)
next
  case (Some it)
  let ?it = "it\<lparr>inventory_name := nullish name (inventory_name it),
                 description := nullish descr (description it)\<rparr>"
  let ?xs = "mutate_found (\<lambda>v. Num (item_id v) = Number_js p) (\<lambda>_. ?it) (list (inventory s))"
  have m: "map item_id ?xs = map item_id (list (inventory s))"
    by (rule mutate_found_same_id [OF Some]) simp
  have e: "inventory (snd (update_f s p name descr)) = (inventory s)\<lparr>list := ?xs\<rparr>"
    by (simp add: update_f_inventory Some)
  show ?thesis
    unfolding e using ids_fresh_same_ids [OF assms m] m by simp
qed

lemma put_photo_f_ids:
  assumes "ids_fresh (inventory s)"
  shows "ids_fresh (inventory (snd (put_photo_f s p upl)))
      \<and> nextId (inventory (snd (put_photo_f s p upl))) = nextId (inventory s)
      \<and> map item_id (list (inventory (snd (put_photo_f s p upl))))
          = map item_id (list (inventory s))"
proof (cases "find_id (Number_js p) (list (inventory s))")
  case None
  with assms show ?thesis
    by (simp add: put_photo_f_inventory)
next
  case (Some it)
  let ?xs = "mutate_found (\<lambda>v. Num (item_id v) = Number_js p) (\<lambda>_. it\<lparr>photo := upl\<rparr>)
               (list (inventory s))"
  have m: "map item_id ?xs = map item_id (list (inventory s))"
    by (rule mutate_found_same_id [OF Some]) simp
  have e: "inventory (snd (put_photo_f s p upl)) = (inventory s)\<lparr>list := ?xs\<rparr>"
    by (simp add: put_photo_f_inventory Some)
  show ?thesis
    unfolding e using ids_fresh_same_ids [OF assms m] m by simp
qed

lemma delete_f_ids:
  assumes "ids_fresh (inventory s)"
  shows "ids_fresh (inventory (snd (delete_f s p)))
      \<and> nextId (inventory (snd (delete_f s p))) = nextId (inventory s)
      \<and> set (list (inventory (snd (delete_f s p)))) \<subseteq> set (list (inventory s))"
proof (cases "find_id (Number_js p) (list (inventory s))")
  case None
  with assms show ?thesis
    by (simp add: delete_f_inventory)
next
  case (Some it)
  have e: "inventory (snd (delete_f s p)) =
      (inventory s)\<lparr>list := drop_found (\<lambda>v. Num (item_id v) = Number_js p) (list (inventory s))\<rparr>"
    by (simp add: delete_f_inventory Some)
  show ?thesis
    unfolding e using ids_fresh_drop [OF assms] drop_found_subset by simp
qed

text \<open>
  One request, from a counter from which the increment is exact when the request is a
  registration: the invariant is kept, \<open>nextId\<close> does not decrease, and the id that a
  registration hands out is the old \<open>nextId\<close>, which it replaces by its successor.
\<close>

lemma registrations_Cons: "registrations (r # rs) = registrations [r] + registrations rs"
  by (cases r) simp_all

lemma step_f_issued:
  "\<forall>i \<in> set (issued_id r (fst (step_f s r))).
     i = nextId (inventory s) \<and> nextId (inventory (snd (step_f s r))) = increment i"
proof (cases r)
  case (Register name descr upl)
  then show ?thesis
    by (simp add: register_f_issued register_f_inventory)
qed (simp_all add: issued_id_def)

lemma step_f_ids:
  assumes "ids_fresh (inventory s)" and "- (2 ^ 53) \<le> nextId (inventory s)"
    and "nextId (inventory s) + int (registrations [r]) \<le> 2 ^ 53"
  shows "ids_fresh (inventory (snd (step_f s r)))"
    and "nextId (inventory s) \<le> nextId (inventory (snd (step_f s r)))"
    and "\<forall>i \<in> set (issued_id r (fst (step_f s r))).
           i = nextId (inventory s) \<and> nextId (inventory (snd (step_f s r))) = i + 1"
    and "set (map item_id (list (inventory (snd (step_f s r)))))
           \<subseteq> set (map item_id (list (inventory s))) \<union> set (issued_id r (fst (step_f s r)))"
    and "nextId (inventory (snd (step_f s r))) \<le> nextId (inventory s) + int (registrations [r])"
proof -
  have "ids_fresh (inventory (snd (step_f s r)))
      \<and> nextId (inventory s) \<le> nextId (inventory (snd (step_f s r)))
      \<and> nextId (inventory (snd (step_f s r))) \<le> nextId (inventory s) + int (registrations [r])
      \<and> (\<forall>i \<in> set (issued_id r (fst (step_f s r))).
            i = nextId (inventory s) \<and> nextId (inventory (snd (step_f s r))) = i + 1)
      \<and> set (map item_id (list (inventory (snd (step_f s r)))))
           \<subseteq> set (map item_id (list (inventory s))) \<union> set (issued_id r (fst (step_f s r)))"
  proof (cases r)
    case (Register name descr upl)
    with assms(2,3) have "exact_counter (nextId (inventory s))"
      by (simp add: exact_counter_def)
    from register_f_ids [OF assms(1) this] Register show ?thesis
      by simp
  next
    case List_all
    with assms show ?thesis
      by (simp add: list_f_state issued_id_def)
  next
    case (Get p)
    with assms show ?thesis
      by (simp add: get_f_state issued_id_def)
  next
    case (Update p name descr)
    with update_f_ids [OF assms(1), of p name descr] show ?thesis
      by (simp add: issued_id_def)
  next
    case (Put_photo p upl)
    with put_photo_f_ids [OF assms(1), of p upl] show ?thesis
      by (simp add: issued_id_def)
  next
    case (Delete p)
    with delete_f_ids [OF assms(1), of p] show ?thesis
      by (simp add: issued_id_def image_mono)
  next
    case (Search i h)
    with assms show ?thesis
      by (simp add: search_f_state issued_id_def)
  qed
  then show "ids_fresh (inventory (snd (step_f s r)))"
    and "nextId (inventory s) \<le> nextId (inventory (snd (step_f s r)))"
    and "\<forall>i \<in> set (issued_id r (fst (step_f s r))).
           i = nextId (inventory s) \<and> nextId (inventory (snd (step_f s r))) = i + 1"
    and "set (map item_id (list (inventory (snd (step_f s r)))))
           \<subseteq> set (map item_id (list (inventory s))) \<union> set (issued_id r (fst (step_f s r)))"
    and "nextId (inventory (snd (step_f s r))) \<le> nextId (inventory s) + int (registrations [r])"
    by simp_all
qed

lemma run_f_ids:
  "ids_fresh (inventory s) \<Longrightarrow> - (2 ^ 53) \<le> nextId (inventory s) \<Longrightarrow>
   nextId (inventory s) + int (registrations rs) \<le> 2 ^ 53 \<Longrightarrow>
     ids_fresh (inventory (run_f s rs))
     \<and> nextId (inventory s) \<le> nextId (inventory (run_f s rs))
     \<and> nextId (inventory (run_f s rs)) \<le> nextId (inventory s) + int (registrations rs)
     \<and> sorted_wrt (<) (issued_ids s rs)
     \<and> (\<forall>i \<in> set (issued_ids s rs). nextId (inventory s) \<le> i \<and> i < nextId (inventory (run_f s rs)))
     \<and> set (map item_id (list (inventory (run_f s rs))))
          \<subseteq> set (map item_id (list (inventory s))) \<union> set (issued_ids s rs)"
proof (induction rs arbitrary: s)
  case Nil
  then show ?case by simp
next
  case (Cons r rs)
  let ?s = "snd (step_f s r)"
  have one_r: "nextId (inventory s) + int (registrations [r]) \<le> 2 ^ 53"
    using Cons.prems(3) by (simp add: registrations_Cons [of r rs])
  note st = step_f_ids [OF Cons.prems(1,2) one_r]
  have lo: "- (2 ^ 53) \<le> nextId (inventory ?s)"
    using st(2) Cons.prems(2) by simp
  have up: "nextId (inventory ?s) + int (registrations rs) \<le> 2 ^ 53"
    using st(5) Cons.prems(3) by (simp add: registrations_Cons [of r rs])
  note ih = Cons.IH [OF st(1) lo up]
  note a = st(3)
  have one: "sorted_wrt (<) (issued_id r (fst (step_f s r)))"
    by (cases r) (simp_all add: issued_id_def split: body.split)
  have "sorted_wrt (<) (issued_id r (fst (step_f s r)) @ issued_ids ?s rs)"
    unfolding sorted_wrt_append using one ih a by fastforce
  moreover have "\<forall>i \<in> set (issued_id r (fst (step_f s r)) @ issued_ids ?s rs).
      nextId (inventory s) \<le> i \<and> i < nextId (inventory (run_f ?s rs))"
    using a ih st(2) by fastforce
  moreover have "set (map item_id (list (inventory (run_f ?s rs))))
      \<subseteq> set (map item_id (list (inventory s)))
        \<union> set (issued_id r (fst (step_f s r)) @ issued_ids ?s rs)"
  proof -
    have "set (map item_id (list (inventory (run_f ?s rs))))
        \<subseteq> set (map item_id (list (inventory ?s))) \<union> set (issued_ids ?s rs)"
      using ih by blast
    with st(4) show ?thesis
      by (simp only: set_append) blast
  qed
  moreover have "nextId (inventory (run_f ?s rs)) \<le> nextId (inventory s) + int (registrations (r # rs))"
    using ih st(5) by (simp add: registrations_Cons [of r rs])
  ultimately show ?case
    using ih st(2) by simp
qed

lemma run_f_persisted:
  "dbFile s = inventory s \<Longrightarrow> dbFile (run_f s rs) = inventory (run_f s rs)"
proof (induction rs arbitrary: s)
  case Nil
  then show ?case by simp
next
  case (Cons r rs)
  from step_f_persists [of s r] Cons.prems
  have "dbFile (snd (step_f s r)) = inventory (snd (step_f s r))"
    by auto
  then show ?case
    using Cons.IH by simp
qed

lemma startup_ids_fresh: "ids_fresh (inventory (startup h p None ups))"
  by (simp add: startup_def ids_fresh_def)

lemma startup_persisted: "dbFile (startup h p file ups) = inventory (startup h p file ups)"
  by (simp add: startup_def split: option.split)

lemma limit_f_eq:
  "limit_f = \<lparr>host = ''localhost'', port = ''3000'',
     inventory = \<lparr>nextId = 9007199254740992, list = []\<rparr>,
     dbFile = \<lparr>nextId = 9007199254740992, list = []\<rparr>, uploads = {}, log = []\<rparr>"
  by (simp add: limit_f_def startup_def)

text \<open>
  C7. Invariant I1 in the flat-file variant holds while the counter is in the range
  where \<^verbatim>\<open>nextId += 1\<close> is exact. From a state whose inventory satisfies the
  invariant and whose \<open>nextId\<close> is at least \<open>-2^53\<close> (such as the one the program
  starts with on an empty directory), after any sequence of requests whose registrations
  do not take \<open>nextId\<close> beyond \<open>2^53\<close>: the ids of the stored items are distinct and
  below \<open>nextId\<close>; \<open>nextId\<close> has not decreased and is at most \<open>2^53\<close>; the ids handed
  out by the registrations of the sequence are strictly increasing, each at least the
  \<open>nextId\<close> of the start, so none of them was in use before, whether or not its item has
  been deleted since; the stored ids are ids of the start or ids handed out; and the
  successor that the program computed for each id handed out is that id plus one. A
  registration hands out the current \<open>nextId\<close> and stores what \<^verbatim>\<open>nextId += 1\<close> makes of
  it. Every request that changes the inventory ends by writing \<open>nextId\<close> and the list
  together to \<^verbatim>\<open>inventory.json\<close>, so that the file equals the inventory after every
  sequence and a restart reads the same \<open>nextId\<close> and list back.
\<close>

theorem flat_file_ids_never_reused:
  assumes "ids_fresh (inventory s)" and "dbFile s = inventory s"
    and "- (2 ^ 53) \<le> nextId (inventory s)"
    and "nextId (inventory s) + int (registrations rs) \<le> 2 ^ 53"
  shows "ids_fresh (inventory (run_f s rs))
     \<and> nextId (inventory s) \<le> nextId (inventory (run_f s rs))
     \<and> nextId (inventory (run_f s rs)) \<le> 2 ^ 53
     \<and> sorted_wrt (<) (issued_ids s rs)
     \<and> (\<forall>i \<in> set (issued_ids s rs). nextId (inventory s) \<le> i \<and> i < nextId (inventory (run_f s rs)))
     \<and> (\<forall>i \<in> set (issued_ids s rs). \<forall>v \<in> set (list (inventory s)). i \<noteq> item_id v)
     \<and> set (map item_id (list (inventory (run_f s rs))))
          \<subseteq> set (map item_id (list (inventory s))) \<union> set (issued_ids s rs)
     \<and> (\<forall>i \<in> set (issued_ids s rs). increment i = i + 1)
     \<and> (\<forall>i \<in> set (issued_id r (fst (step_f s r))).
           i = nextId (inventory s) \<and> nextId (inventory (snd (step_f s r))) = increment i)
     \<and> dbFile (run_f s rs) = inventory (run_f s rs)
     \<and> inventory (startup hst prt (Some (dbFile (run_f s rs))) ups) = inventory (run_f s rs)
     \<and> (inventory (snd (step_f s r)) = inventory s
        \<or> dbFile (snd (step_f s r)) = inventory (snd (step_f s r))
          \<and> last (log (snd (step_f s r))) = Written (inventory (snd (step_f s r))))"
proof -
  note ids = run_f_ids [OF assms(1,3,4)]
  note per = run_f_persisted [OF assms(2), of rs]
  have top: "nextId (inventory (run_f s rs)) \<le> 2 ^ 53"
    using ids assms(4) by simp
  have "\<forall>i \<in> set (issued_ids s rs). \<forall>v \<in> set (list (inventory s)). i \<noteq> item_id v"
    using ids assms(1) by (fastforce simp: ids_fresh_def)
  moreover have "\<forall>i \<in> set (issued_ids s rs). increment i = i + 1"
  proof
    fix i
    assume "i \<in> set (issued_ids s rs)"
    with ids have "nextId (inventory s) \<le> i" and "i < nextId (inventory (run_f s rs))"
      by blast+
    with top assms(3) have "exact_counter i"
      by (simp add: exact_counter_def)
    then show "increment i = i + 1"
      by (rule increment_exact)
  qed
  moreover have "inventory (snd (step_f s r)) = inventory s
        \<or> dbFile (snd (step_f s r)) = inventory (snd (step_f s r))
          \<and> last (log (snd (step_f s r))) = Written (inventory (snd (step_f s r)))"
    using step_f_persists [of s r] by blast
  moreover have "inventory (startup hst prt (Some (dbFile (run_f s rs))) ups)
      = inventory (run_f s rs)"
    using per by (simp add: startup_def)
  ultimately show ?thesis
    using ids top per step_f_issued [of r s] by blast
qed

theorem flat_file_ids_never_reused_witness:
  "ids_fresh (inventory fresh_f) \<and> dbFile fresh_f = inventory fresh_f
   \<and> - (2 ^ 53) \<le> nextId (inventory fresh_f)
   \<and> nextId (inventory fresh_f)
        + int (registrations
            [Register (Some ''Saw'') None None, Delete ''1'', Register (Some ''Hammer'') None None])
       \<le> 2 ^ 53
   \<and> issued_ids fresh_f
        [Register (Some ''Saw'') None None, Delete ''1'', Register (Some ''Hammer'') None None]
       = [1, 2]
   \<and> ids_fresh (inventory (run_f fresh_f
        [Register (Some ''Saw'') None None, Delete ''1'', Register (Some ''Hammer'') None None]))
   \<and> dbFile (run_f fresh_f
        [Register (Some ''Saw'') None None, Delete ''1'', Register (Some ''Hammer'') None None])
       = inventory (run_f fresh_f
        [Register (Some ''Saw'') None None, Delete ''1'', Register (Some ''Hammer'') None None])"
proof -
  let ?rs = "[Register (Some ''Saw'') None None, Delete ''1'', Register (Some ''Hammer'') None None]"
  have h1: "ids_fresh (inventory fresh_f)"
    by (simp add: fresh_f_def startup_ids_fresh)
  have h2: "dbFile fresh_f = inventory fresh_f"
    by (simp add: fresh_f_def startup_persisted)
  have h3: "- (2 ^ 53) \<le> nextId (inventory fresh_f)"
    by (simp add: fresh_f_eq)
  have h4: "nextId (inventory fresh_f) + int (registrations ?rs) \<le> 2 ^ 53"
    by (simp add: fresh_f_eq)
  have d: "issued_id (Delete ''1'') a = []" for a
    by (simp add: issued_id_def)
  have "issued_ids fresh_f ?rs = [1, 2]"
    by (simp add: register_f_issued register_f_inventory delete_f_inventory fresh_f_eq
        find_id_def Number_js_1 d increment_1)
  with flat_file_ids_never_reused [OF h1 h2 h3 h4, of "Delete ''1''" "''localhost''" "''3000''" "{}"]
    h1 h2 h3 h4 show ?thesis
    by blast
qed

text \<open>
  At the counter \<open>2^53\<close> the invariant is lost: started on a file with
  \<^verbatim>\<open>nextId\<close> \<open>= 2^53\<close> and no items, which satisfies the invariant, two registrations
  are both given the id \<open>9007199254740992\<close>, the counter stays where it was, and the
  list holds two items with the same id.
\<close>

theorem flat_file_id_reused_counterexample:
  "ids_fresh (inventory limit_f) \<and> dbFile limit_f = inventory limit_f
   \<and> issued_ids limit_f
        [Register (Some ''Saw'') None None, Register (Some ''Hammer'') None None]
       = [9007199254740992, 9007199254740992]
   \<and> \<not> sorted_wrt (<) (issued_ids limit_f
        [Register (Some ''Saw'') None None, Register (Some ''Hammer'') None None])
   \<and> map item_id (list (inventory (run_f limit_f
        [Register (Some ''Saw'') None None, Register (Some ''Hammer'') None None])))
       = [9007199254740992, 9007199254740992]
   \<and> nextId (inventory (run_f limit_f
        [Register (Some ''Saw'') None None, Register (Some ''Hammer'') None None]))
       = 9007199254740992
   \<and> \<not> ids_fresh (inventory (run_f limit_f
        [Register (Some ''Saw'') None None, Register (Some ''Hammer'') None None]))"
proof -
  let ?rs = "[Register (Some ''Saw'') None None, Register (Some ''Hammer'') None None]"
  have l: "increment 9007199254740992 = 9007199254740992"
    using increment_limit by simp
  have i: "issued_ids limit_f ?rs = [9007199254740992, 9007199254740992]"
    by (simp add: register_f_issued register_f_inventory limit_f_eq l)
  have v: "inventory (run_f limit_f ?rs) =
      \<lparr>nextId = 9007199254740992,
       list = [\<lparr>item_id = 9007199254740992, inventory_name = ''Saw'', description = [], photo = None\<rparr>,
               \<lparr>item_id = 9007199254740992, inventory_name = ''Hammer'', description = [], photo = None\<rparr>]\<rparr>"
    by (simp add: register_f_inventory limit_f_eq l nullish_def)
  show ?thesis
    unfolding i v by (simp add: limit_f_eq ids_fresh_def)
qed
section \<open>Deleting twice\<close>



lemma delete_f_absent:
  "find_id (Number_js p) (list (inventory s)) = None \<Longrightarrow> delete_f s p = (not_found, s)"
  by (simp add: delete_f_def)

lemma delete_f_present:
  assumes "find_id (Number_js p) (list (inventory s)) = Some it"
  shows "fst (delete_f s p) = \<lparr>status = 200, body = Json_undefined\<rparr>"
    and "log (snd (delete_f s p)) =
           log (unlink_photo it s) @ [Written (inventory (snd (delete_f s p)))]"
    and "uploads (snd (delete_f s p)) = uploads (unlink_photo it s)"
  using assms by (simp_all add: delete_f_def Let_def writeFileSync_def)

lemma unlink_photo_live:
  "photo it = Some f \<Longrightarrow> f \<noteq> [] \<Longrightarrow> f \<in> uploads s \<Longrightarrow>
     log (unlink_photo it s) = log s @ [Unlinked f] \<and> uploads (unlink_photo it s) = uploads s - {f}"
  by (simp add: unlink_photo_def unlinkSync_def)



text \<open>The relational handler, when no query fails and the id text is an integer.\<close>

lemma select_by_id_ok:
  "faults t = [] \<Longrightarrow> pg_int p = Some k \<Longrightarrow>
     select_by_id (Some p) t = Some (find (\<lambda>r. item_id r = k) (table t))"
  by (simp add: select_by_id_def query_fails_def)

lemma unlink_photo_r_frame [simp]:
  "table (unlink_photo_r it t) = table t" "faults (unlink_photo_r it t) = faults t"
  "serial (unlink_photo_r it t) = serial t"
  by (simp_all add: unlink_photo_r_def unlinkSync_r_def split: option.split)

lemma unlink_photo_r_live:
  "photo it = Some f \<Longrightarrow> f \<noteq> [] \<Longrightarrow> f \<in> cache t \<Longrightarrow>
     trace (unlink_photo_r it t) = trace t @ [Unlinked f] \<and> cache (unlink_photo_r it t) = cache t - {f}"
  by (simp add: unlink_photo_r_def unlinkSync_r_def)

lemma delete_r_absent:
  "faults t = [] \<Longrightarrow> pg_int p = Some k \<Longrightarrow> find (\<lambda>r. item_id r = k) (table t) = None \<Longrightarrow>
     delete_r t p = (not_found, t)"
  by (simp add: delete_r_def select_by_id_ok next_query_no_faults)

lemma delete_r_present:
  assumes "faults t = []" and "pg_int p = Some k"
    and "find (\<lambda>r. item_id r = k) (table t) = Some row"
  shows "delete_r t p =
    (\<lparr>status = 200, body = Json_undefined\<rparr>,
     (unlink_photo_r row t)\<lparr>table := filter (\<lambda>r. item_id r \<noteq> item_id row) (table t),
        trace := trace (unlink_photo_r row t) @ [Deleted (item_id row)]\<rparr>)"
proof -
  have "faults (unlink_photo_r row t) = []"
    using assms(1) by simp
  then have "\<not> query_fails (unlink_photo_r row t)"
    and "next_query (unlink_photo_r row t) = unlink_photo_r row t"
    by (simp_all add: query_fails_def next_query_no_faults)
  with assms show ?thesis
    by (simp add: delete_r_def select_by_id_ok next_query_no_faults Let_def)
qed




section \<open>Names\<close>








text \<open>The same for the rows of the table.\<close>

lemma table_frame [simp]:
  "table (multer_r upl t) = table t" "table (discard_upload_r upl t) = table t"
  "table (next_query t) = table t"
  by (simp_all add: multer_r_def discard_upload_r_def unlinkSync_r_def next_query_def
      split: option.split)









section \<open>The order of the effects of replacing a photo and of deleting\<close>

lemma multer_log:
  "log (multer upl s) = log s @ (case upl of None \<Rightarrow> [] | Some f \<Rightarrow> [Stored f])"
  "uploads (multer upl s) = uploads s \<union> set_option upl"
  by (simp_all add: multer_def split: option.split)

lemma multer_r_trace:
  "trace (multer_r upl t) = trace t @ (case upl of None \<Rightarrow> [] | Some f \<Rightarrow> [Stored f])"
  "cache (multer_r upl t) = cache t \<union> set_option upl"
  "faults (multer_r upl t) = faults t"
  by (simp_all add: multer_r_def split: option.split)

lemma find_mutate:
  "find P xs = Some it \<Longrightarrow> P y \<Longrightarrow> find P (mutate_found P (\<lambda>_. y) xs) = Some y"
  by (induction xs) (auto split: if_splits)

lemma find_id_mutate:
  "find_id n xs = Some it \<Longrightarrow> Num (item_id y) = n \<Longrightarrow>
     find_id n (mutate_found (\<lambda>v. Num (item_id v) = n) (\<lambda>_. y) xs) = Some y"
  unfolding find_id_def by (rule find_mutate)

lemma put_photo_f_present:
  assumes "find_id (Number_js p) (list (inventory s)) = Some it"
  shows "fst (put_photo_f s p upl) =
           \<lparr>status = 200, body = Json_item (formatItemResponse s (it\<lparr>photo := upl\<rparr>))\<rparr>"
    and "log (snd (put_photo_f s p upl)) =
           log (unlink_photo it (multer upl s)) @ [Written (inventory (snd (put_photo_f s p upl)))]"
    and "uploads (snd (put_photo_f s p upl)) = uploads (unlink_photo it (multer upl s))"
    and "dbFile (snd (put_photo_f s p upl)) = inventory (snd (put_photo_f s p upl))"
    and "find_id (Number_js p) (list (inventory (snd (put_photo_f s p upl))))
           = Some (it\<lparr>photo := upl\<rparr>)"
proof -
  from assms have n: "Num (item_id (it\<lparr>photo := upl\<rparr>)) = Number_js p"
    using find_id_Some_mem by fastforce
  show "find_id (Number_js p) (list (inventory (snd (put_photo_f s p upl))))
           = Some (it\<lparr>photo := upl\<rparr>)"
    using find_id_mutate [OF assms n] assms by (simp add: put_photo_f_inventory)
  show "fst (put_photo_f s p upl) =
           \<lparr>status = 200, body = Json_item (formatItemResponse s (it\<lparr>photo := upl\<rparr>))\<rparr>"
    using assms
    by (simp add: put_photo_f_def Let_def writeFileSync_def formatItemResponse_def
        unlink_photo_def unlinkSync_def split: option.split)
  show "log (snd (put_photo_f s p upl)) =
           log (unlink_photo it (multer upl s)) @ [Written (inventory (snd (put_photo_f s p upl)))]"
    and "uploads (snd (put_photo_f s p upl)) = uploads (unlink_photo it (multer upl s))"
    and "dbFile (snd (put_photo_f s p upl)) = inventory (snd (put_photo_f s p upl))"
    using assms by (simp_all add: put_photo_f_def Let_def writeFileSync_def)
qed

lemma put_photo_r_present:
  assumes "faults t = []" and "pg_int p = Some k"
    and "find (\<lambda>r. item_id r = k) (table t) = Some row"
  shows "put_photo_r t p upl =
    (\<lparr>status = 200, body = Json_item (formatItemResponse_r (row\<lparr>photo := upl\<rparr>))\<rparr>,
     (unlink_photo_r row (multer_r upl t))\<lparr>table :=
         map (\<lambda>r. if item_id r = item_id row then r\<lparr>photo := upl\<rparr> else r) (table t),
       trace := trace (unlink_photo_r row (multer_r upl t)) @ [Photo_set (item_id row) upl]\<rparr>)"
proof -
  let ?t = "multer_r upl t"
  have f: "faults ?t = []"
    using assms(1) by (simp add: multer_r_trace)
  then have s: "select_by_id (Some p) ?t = Some (Some row)"
    using assms by (simp add: select_by_id_ok)
  have "faults (unlink_photo_r row ?t) = []"
    using f by simp
  then have "\<not> query_fails (unlink_photo_r row ?t)"
    and "next_query (unlink_photo_r row ?t) = unlink_photo_r row ?t"
    by (simp_all add: query_fails_def next_query_no_faults)
  with s f show ?thesis
    by (simp add: put_photo_r_def next_query_no_faults Let_def)
qed

text \<open>
  C1, as stated, fails: replacing the photo \<^verbatim>\<open>a1b2\<close> of item 1 by an upload stored as
  \<^verbatim>\<open>c3d4\<close> has the effects, in this order: the upload is stored, \<^verbatim>\<open>a1b2\<close> is unlinked,
  the inventory with the new reference is written. The old file is removed before the
  record store is changed.
\<close>

theorem put_photo_f_order_counterexample:
  "find_id (Number_js ''1'') (list (inventory drill_f)) = Some drill
   \<and> photo drill = Some ''a1b2''
   \<and> log (snd (put_photo_f drill_f ''1'' (Some ''c3d4''))) =
       log drill_f @
       [Stored ''c3d4'', Unlinked ''a1b2'',
        Written \<lparr>nextId = 2, list = [drill\<lparr>photo := Some ''c3d4''\<rparr>]\<rparr>]
   \<and> unlinked_before_record ''a1b2''
       [Stored ''c3d4'', Unlinked ''a1b2'',
        Written \<lparr>nextId = 2, list = [drill\<lparr>photo := Some ''c3d4''\<rparr>]\<rparr>]"
proof -
  have f: "find_id (Number_js ''1'') (list (inventory drill_f)) = Some drill"
    by (simp add: Number_js_1 find_drill_f)
  have i: "inventory (snd (put_photo_f drill_f ''1'' (Some ''c3d4'')))
      = \<lparr>nextId = 2, list = [drill\<lparr>photo := Some ''c3d4''\<rparr>]\<rparr>"
    by (simp add: put_photo_f_inventory f) (simp add: drill_f_eq Number_js_1 drill_def)
  have u: "log (unlink_photo drill (multer (Some ''c3d4'') drill_f))
      = log drill_f @ [Stored ''c3d4'', Unlinked ''a1b2'']"
    by (simp add: unlink_photo_def unlinkSync_def multer_def drill_def) (simp add: drill_f_eq)
  from put_photo_f_present(2) [OF f, of "Some ''c3d4''"] i u f show ?thesis
    by (simp add: unlinked_before_record_def) (simp add: drill_def)
qed

text \<open>
  C1, amended. A \<^verbatim>\<open>PUT /inventory/:id/photo\<close> on an existing item whose photo is an
  existing file \<open>old\<close> has these effects, in this order: the upload, when there is one, is
  stored; \<open>old\<close> is unlinked; the record store is given the new reference (the
  inventory is written, respectively the row is updated). It answers 200, and afterwards
  the item refers to the upload (or to nothing), \<open>old\<close> is gone unless the upload has its
  name, and in the flat-file variant \<^verbatim>\<open>inventory.json\<close> equals the inventory. For the
  relational variant this is for an integer id text when no query fails.
\<close>

theorem put_photo_unlinks_then_records:
  "(find_id (Number_js p) (list (inventory s)) = Some it
      \<and> photo it = Some old \<and> old \<noteq> [] \<and> old \<in> uploads s \<longrightarrow>
      status (fst (put_photo_f s p upl)) = 200
      \<and> log (snd (put_photo_f s p upl)) =
          log s @ (case upl of None \<Rightarrow> [] | Some f \<Rightarrow> [Stored f])
          @ [Unlinked old, Written (inventory (snd (put_photo_f s p upl)))]
      \<and> find_id (Number_js p) (list (inventory (snd (put_photo_f s p upl))))
          = Some (it\<lparr>photo := upl\<rparr>)
      \<and> dbFile (snd (put_photo_f s p upl)) = inventory (snd (put_photo_f s p upl))
      \<and> uploads (snd (put_photo_f s p upl)) = (uploads s \<union> set_option upl) - {old})
   \<and> (faults t = [] \<and> pg_int p = Some k \<and> find (\<lambda>r. item_id r = k) (table t) = Some row
      \<and> photo row = Some old \<and> old \<noteq> [] \<and> old \<in> cache t \<longrightarrow>
      status (fst (put_photo_r t p upl)) = 200
      \<and> trace (snd (put_photo_r t p upl)) =
          trace t @ (case upl of None \<Rightarrow> [] | Some f \<Rightarrow> [Stored f])
          @ [Unlinked old, Photo_set k upl]
      \<and> table (snd (put_photo_r t p upl)) =
          map (\<lambda>r. if item_id r = k then r\<lparr>photo := upl\<rparr> else r) (table t)
      \<and> cache (snd (put_photo_r t p upl)) = (cache t \<union> set_option upl) - {old})"
proof (intro conjI impI)
  assume a: "find_id (Number_js p) (list (inventory s)) = Some it
      \<and> photo it = Some old \<and> old \<noteq> [] \<and> old \<in> uploads s"
  then have f: "find_id (Number_js p) (list (inventory s)) = Some it" by simp
  from a have "old \<in> uploads (multer upl s)"
    by (simp add: multer_log)
  with a have u: "log (unlink_photo it (multer upl s)) = log (multer upl s) @ [Unlinked old]"
    "uploads (unlink_photo it (multer upl s)) = uploads (multer upl s) - {old}"
    using unlink_photo_live by blast+
  note pr = put_photo_f_present [OF f, of upl]
  show "status (fst (put_photo_f s p upl)) = 200"
    by (simp add: pr(1))
  show "log (snd (put_photo_f s p upl)) =
          log s @ (case upl of None \<Rightarrow> [] | Some f \<Rightarrow> [Stored f])
          @ [Unlinked old, Written (inventory (snd (put_photo_f s p upl)))]"
    by (simp add: pr(2) u multer_log)
  show "find_id (Number_js p) (list (inventory (snd (put_photo_f s p upl))))
          = Some (it\<lparr>photo := upl\<rparr>)"
    by (rule pr(5))
  show "dbFile (snd (put_photo_f s p upl)) = inventory (snd (put_photo_f s p upl))"
    by (rule pr(4))
  show "uploads (snd (put_photo_f s p upl)) = (uploads s \<union> set_option upl) - {old}"
    by (simp add: pr(3) u multer_log)
next
  assume a: "faults t = [] \<and> pg_int p = Some k \<and> find (\<lambda>r. item_id r = k) (table t) = Some row
      \<and> photo row = Some old \<and> old \<noteq> [] \<and> old \<in> cache t"
  then have f: "faults t = []" and i: "pg_int p = Some k"
    and r: "find (\<lambda>r. item_id r = k) (table t) = Some row"
    by simp_all
  from r have k: "item_id row = k"
    by (auto simp: find_Some_iff)
  from a have "old \<in> cache (multer_r upl t)"
    by (simp add: multer_r_trace)
  with a have u: "trace (unlink_photo_r row (multer_r upl t)) = trace (multer_r upl t) @ [Unlinked old]"
    "cache (unlink_photo_r row (multer_r upl t)) = cache (multer_r upl t) - {old}"
    using unlink_photo_r_live by blast+
  note pr = put_photo_r_present [OF f i r, of upl]
  show "status (fst (put_photo_r t p upl)) = 200"
    by (simp add: pr)
  show "trace (snd (put_photo_r t p upl)) =
          trace t @ (case upl of None \<Rightarrow> [] | Some f \<Rightarrow> [Stored f])
          @ [Unlinked old, Photo_set k upl]"
    by (simp add: pr u multer_r_trace k)
  show "table (snd (put_photo_r t p upl)) =
          map (\<lambda>r. if item_id r = k then r\<lparr>photo := upl\<rparr> else r) (table t)"
    by (simp add: pr k)
  show "cache (snd (put_photo_r t p upl)) = (cache t \<union> set_option upl) - {old}"
    by (simp add: pr u multer_r_trace)
qed

theorem put_photo_unlinks_then_records_witness:
  "find_id (Number_js ''1'') (list (inventory drill_f)) = Some drill
   \<and> photo drill = Some ''a1b2'' \<and> ''a1b2'' \<in> uploads drill_f
   \<and> faults drill_r = [] \<and> pg_int ''1'' = Some 1
   \<and> find (\<lambda>r. item_id r = 1) (table drill_r) = Some drill \<and> ''a1b2'' \<in> cache drill_r
   \<and> log (snd (put_photo_f drill_f ''1'' (Some ''c3d4''))) =
       log drill_f @ [Stored ''c3d4'', Unlinked ''a1b2'',
         Written (inventory (snd (put_photo_f drill_f ''1'' (Some ''c3d4''))))]
   \<and> uploads (snd (put_photo_f drill_f ''1'' (Some ''c3d4''))) = {''c3d4''}
   \<and> trace (snd (put_photo_r drill_r ''1'' (Some ''c3d4''))) =
       trace drill_r @ [Stored ''c3d4'', Unlinked ''a1b2'', Photo_set 1 (Some ''c3d4'')]
   \<and> cache (snd (put_photo_r drill_r ''1'' (Some ''c3d4''))) = {''c3d4''}"
proof -
  have h: "find_id (Number_js ''1'') (list (inventory drill_f)) = Some drill"
    "photo drill = Some ''a1b2''" "''a1b2'' \<noteq> []" "''a1b2'' \<in> uploads drill_f"
    "faults drill_r = []" "find (\<lambda>r. item_id r = 1) (table drill_r) = Some drill"
    "''a1b2'' \<in> cache drill_r"
    by (simp_all add: Number_js_1 find_drill_f) (simp_all add: drill_f_eq drill_r_eq drill_def)
  have c: "(uploads drill_f \<union> set_option (Some ''c3d4'')) - {''a1b2''} = {''c3d4''}"
    "(cache drill_r \<union> set_option (Some ''c3d4'')) - {''a1b2''} = {''c3d4''}"
    by (auto simp: drill_f_eq drill_r_eq)
  note t = put_photo_unlinks_then_records
    [of "''1''" drill_f drill "''a1b2''" "Some ''c3d4''" drill_r 1 drill]
  from t h pg_int_1 c show ?thesis
    by simp
qed

text \<open>
  C3, as stated, fails: deleting item 1, whose photo is the existing file \<^verbatim>\<open>a1b2\<close>,
  first unlinks \<^verbatim>\<open>a1b2\<close> and then writes the inventory without the item. The file is
  removed before the record.
\<close>

theorem delete_f_order_counterexample:
  "find_id (Number_js ''1'') (list (inventory drill_f)) = Some drill
   \<and> photo drill = Some ''a1b2''
   \<and> log (snd (delete_f drill_f ''1'')) =
       log drill_f @ [Unlinked ''a1b2'', Written \<lparr>nextId = 2, list = []\<rparr>]
   \<and> unlinked_before_record ''a1b2'' [Unlinked ''a1b2'', Written \<lparr>nextId = 2, list = []\<rparr>]"
proof -
  have f: "find_id (Number_js ''1'') (list (inventory drill_f)) = Some drill"
    by (simp add: Number_js_1 find_drill_f)
  have i: "inventory (snd (delete_f drill_f ''1'')) = \<lparr>nextId = 2, list = []\<rparr>"
    by (simp add: delete_f_inventory f) (simp add: drill_f_eq Number_js_1 drill_def)
  have u: "log (unlink_photo drill drill_f) = log drill_f @ [Unlinked ''a1b2'']"
    by (simp add: unlink_photo_def unlinkSync_def drill_def) (simp add: drill_f_eq)
  from delete_f_present(2) [OF f] i u f show ?thesis
    by (simp add: unlinked_before_record_def) (simp add: drill_def)
qed

text \<open>
  C3, amended. A \<^verbatim>\<open>DELETE /inventory/:id\<close> on an existing item whose photo is an existing
  file \<open>f\<close> has two effects, in this order: \<open>f\<close> is unlinked, then the record is removed
  (the inventory is written without the item, respectively the row is deleted). Between
  the two the item is still stored and refers to the file that is gone; after both, the
  file is gone and the item is dropped from the list, respectively no row has the id.
  For the relational variant this is for an integer id text when no query fails.
\<close>

theorem delete_unlinks_then_removes_record:
  "(find_id (Number_js p) (list (inventory s)) = Some it
      \<and> photo it = Some f \<and> f \<noteq> [] \<and> f \<in> uploads s \<longrightarrow>
      status (fst (delete_f s p)) = 200
      \<and> log (snd (delete_f s p)) = log s @ [Unlinked f, Written (inventory (snd (delete_f s p)))]
      \<and> log (unlink_photo it s) = log s @ [Unlinked f]
      \<and> find_id (Number_js p) (list (inventory (unlink_photo it s))) = Some it
      \<and> f \<notin> uploads (unlink_photo it s)
      \<and> list (inventory (snd (delete_f s p)))
          = drop_found (\<lambda>v. Num (item_id v) = Number_js p) (list (inventory s))
      \<and> dbFile (snd (delete_f s p)) = inventory (snd (delete_f s p))
      \<and> uploads (snd (delete_f s p)) = uploads s - {f})
   \<and> (faults t = [] \<and> pg_int p = Some k \<and> find (\<lambda>r. item_id r = k) (table t) = Some row
      \<and> photo row = Some f \<and> f \<noteq> [] \<and> f \<in> cache t \<longrightarrow>
      status (fst (delete_r t p)) = 200
      \<and> trace (snd (delete_r t p)) = trace t @ [Unlinked f, Deleted k]
      \<and> table (snd (delete_r t p)) = filter (\<lambda>r. item_id r \<noteq> k) (table t)
      \<and> cache (snd (delete_r t p)) = cache t - {f})"
proof (intro conjI impI)
  assume a: "find_id (Number_js p) (list (inventory s)) = Some it
      \<and> photo it = Some f \<and> f \<noteq> [] \<and> f \<in> uploads s"
  then have found: "find_id (Number_js p) (list (inventory s)) = Some it" by simp
  from a have u: "log (unlink_photo it s) = log s @ [Unlinked f]"
    "uploads (unlink_photo it s) = uploads s - {f}"
    using unlink_photo_live by blast+
  note d = delete_f_present [OF found]
  show "status (fst (delete_f s p)) = 200"
    by (simp add: d(1))
  show "log (snd (delete_f s p)) = log s @ [Unlinked f, Written (inventory (snd (delete_f s p)))]"
    by (simp add: d(2) u)
  show "log (unlink_photo it s) = log s @ [Unlinked f]"
    by (rule u(1))
  show "find_id (Number_js p) (list (inventory (unlink_photo it s))) = Some it"
    by (simp add: found)
  show "f \<notin> uploads (unlink_photo it s)"
    by (simp add: u)
  show "list (inventory (snd (delete_f s p)))
          = drop_found (\<lambda>v. Num (item_id v) = Number_js p) (list (inventory s))"
    by (simp add: delete_f_inventory found)
  show "dbFile (snd (delete_f s p)) = inventory (snd (delete_f s p))"
    using found by (simp add: delete_f_def Let_def writeFileSync_def)
  show "uploads (snd (delete_f s p)) = uploads s - {f}"
    by (simp add: d(3) u)
next
  assume a: "faults t = [] \<and> pg_int p = Some k \<and> find (\<lambda>r. item_id r = k) (table t) = Some row
      \<and> photo row = Some f \<and> f \<noteq> [] \<and> f \<in> cache t"
  then have fl: "faults t = []" and i: "pg_int p = Some k"
    and r: "find (\<lambda>r. item_id r = k) (table t) = Some row"
    by simp_all
  from r have k: "item_id row = k"
    by (auto simp: find_Some_iff)
  from a have u: "trace (unlink_photo_r row t) = trace t @ [Unlinked f]"
    "cache (unlink_photo_r row t) = cache t - {f}"
    using unlink_photo_r_live by blast+
  note d = delete_r_present [OF fl i r]
  show "status (fst (delete_r t p)) = 200"
    by (simp add: d)
  show "trace (snd (delete_r t p)) = trace t @ [Unlinked f, Deleted k]"
    by (simp add: d u k)
  show "table (snd (delete_r t p)) = filter (\<lambda>r. item_id r \<noteq> k) (table t)"
    by (simp add: d k)
  show "cache (snd (delete_r t p)) = cache t - {f}"
    by (simp add: d u)
qed

theorem delete_unlinks_then_removes_record_witness:
  "find_id (Number_js ''1'') (list (inventory drill_f)) = Some drill
   \<and> photo drill = Some ''a1b2'' \<and> ''a1b2'' \<in> uploads drill_f
   \<and> faults drill_r = [] \<and> pg_int ''1'' = Some 1
   \<and> find (\<lambda>r. item_id r = 1) (table drill_r) = Some drill \<and> ''a1b2'' \<in> cache drill_r
   \<and> log (snd (delete_f drill_f ''1'')) =
       log drill_f @ [Unlinked ''a1b2'', Written (inventory (snd (delete_f drill_f ''1'')))]
   \<and> uploads (snd (delete_f drill_f ''1'')) = {}
   \<and> trace (snd (delete_r drill_r ''1'')) = trace drill_r @ [Unlinked ''a1b2'', Deleted 1]
   \<and> table (snd (delete_r drill_r ''1'')) = []
   \<and> cache (snd (delete_r drill_r ''1'')) = {}"
proof -
  have h: "find_id (Number_js ''1'') (list (inventory drill_f)) = Some drill"
    "photo drill = Some ''a1b2''" "''a1b2'' \<noteq> []" "''a1b2'' \<in> uploads drill_f"
    "faults drill_r = []" "find (\<lambda>r. item_id r = 1) (table drill_r) = Some drill"
    "''a1b2'' \<in> cache drill_r"
    by (simp_all add: Number_js_1 find_drill_f) (simp_all add: drill_f_eq drill_r_eq drill_def)
  have c: "uploads drill_f - {''a1b2''} = {}" "cache drill_r - {''a1b2''} = {}"
    "filter (\<lambda>r. item_id r \<noteq> 1) (table drill_r) = []"
    by (simp_all add: drill_f_eq drill_r_eq drill_def)
  note t = delete_unlinks_then_removes_record [of "''1''" drill_f drill "''a1b2''" drill_r 1 drill]
  from t h pg_int_1 c show ?thesis
    by simp
qed

section \<open>The two variants side by side\<close>

lemma parseInt_js_undefined: "parseInt_js None = NaN"
  by code_simp

lemma format_rebase: "formatItemResponse s it = rebase (base_f s) (formatItemResponse_r it)"
  by (simp add: formatItemResponse_def formatItemResponse_r_def rebase_def base_f_def)

lemma find_id_NaN: "find_id NaN xs = None"
  by (simp add: find_id_None)

lemma find_id_Num: "find_id (Num k) xs = find (\<lambda>r. item_id r = k) xs"
  by (simp add: find_id_def)

lemma distinct_same_id:
  "distinct (map item_id xs) \<Longrightarrow> x \<in> set xs \<Longrightarrow> y \<in> set xs \<Longrightarrow> item_id x = item_id y \<Longrightarrow> x = y"
  by (simp add: distinct_map inj_on_def)

text \<open>
  With distinct ids, changing the object that \<open>find\<close> returned is the same as
  \<^verbatim>\<open>UPDATE ... WHERE id\<close>, and dropping it is the same as \<^verbatim>\<open>DELETE ... WHERE id\<close>.
\<close>

lemma mutate_found_map:
  assumes "distinct (map item_id xs)" and "\<And>x. x \<in> set xs \<Longrightarrow> item_id x = k \<Longrightarrow> f x = y"
  shows "mutate_found (\<lambda>v. Num (item_id v) = Num k) (\<lambda>_. y) xs
       = map (\<lambda>r. if item_id r = k then f r else r) xs"
  using assms
proof (induction xs)
  case Nil
  then show ?case by simp
next
  case (Cons x xs)
  show ?case
  proof (cases "item_id x = k")
    case True
    with Cons.prems(1) have "\<forall>r \<in> set xs. item_id r \<noteq> k"
      by (force simp: image_iff)
    then have "map (\<lambda>r. if item_id r = k then f r else r) xs = xs"
      by (simp add: map_idI)
    with True Cons.prems(2) [of x] show ?thesis
      by simp
  next
    case False
    with Cons show ?thesis
      by simp
  qed
qed

lemma drop_found_filter:
  "distinct (map item_id xs) \<Longrightarrow>
     drop_found (\<lambda>v. Num (item_id v) = Num k) xs = filter (\<lambda>r. item_id r \<noteq> k) xs"
proof (induction xs)
  case Nil
  then show ?case by simp
next
  case (Cons x xs)
  show ?case
  proof (cases "item_id x = k")
    case True
    with Cons.prems have "\<forall>r \<in> set xs. item_id r \<noteq> k"
      by (force simp: image_iff)
    then have "filter (\<lambda>r. item_id r \<noteq> k) xs = xs"
      by (simp add: filter_id_conv)
    with True show ?thesis
      by simp
  next
    case False
    with Cons show ?thesis
      by simp
  qed
qed

lemma register_same_response:
  assumes "corresponds s t"
  shows "same_response (base_f s) (fst (register_f s name descr upl)) (fst (register_r t name descr upl))"
proof (cases "truthy name")
  case False
  with assms show ?thesis
    by (simp add: register_f_invalid register_r_invalid same_response_def)
next
  case True
  from assms have f: "faults (multer_r upl t) = []" "faults t = []"
    by (simp_all add: corresponds_def multer_r_trace)
  then have q: "\<not> query_fails (multer_r upl t)"
    by (simp add: query_fails_def)
  from True q assms f show ?thesis
    by (simp add: same_response_def corresponds_def)
       (simp add: register_f_def register_r_def Let_def writeFileSync_def format_rebase
        next_query_def multer_r_def base_f_def split: option.split)
qed

lemma register_corresponds:
  assumes "corresponds s t" and "exact_counter (nextId (inventory s))"
  shows "same_response (base_f s) (fst (register_f s name descr upl)) (fst (register_r t name descr upl))
       \<and> corresponds (snd (register_f s name descr upl)) (snd (register_r t name descr upl))"
proof (cases "truthy name")
  case False
  with assms show ?thesis
    by (simp add: register_f_invalid register_r_invalid same_response_def corresponds_def
        discard_upload_r_def multer_r_def unlinkSync_r_def split: option.split)
next
  case True
  from assms have f: "faults (multer_r upl t) = []" "faults t = []"
    by (simp_all add: corresponds_def multer_r_trace)
  then have q: "\<not> query_fails (multer_r upl t)"
    by (simp add: query_fails_def)
  have fr: "ids_fresh (inventory (snd (register_f s name descr upl)))"
    using register_f_ids [OF _ assms(2)] assms(1) by (simp add: corresponds_def)
  from True q assms f show ?thesis
    using fr
    by (simp add: same_response_def corresponds_def register_f_inventory increment_exact)
       (simp add: register_f_def register_r_def Let_def writeFileSync_def format_rebase
        next_query_def multer_r_def base_f_def split: option.split)
qed

lemma no_faults [simp]:
  "faults t = [] \<Longrightarrow> \<not> query_fails t"
  "faults t = [] \<Longrightarrow> next_query t = t"
  by (simp_all add: query_fails_def next_query_def)

lemma faults_frame [simp]:
  "faults (multer_r upl t) = faults t" "faults (discard_upload_r upl t) = faults t"
  by (simp_all add: multer_r_def discard_upload_r_def unlinkSync_r_def split: option.split)

lemma serial_frame [simp]:
  "serial (multer_r upl t) = serial t" "serial (discard_upload_r upl t) = serial t"
  by (simp_all add: multer_r_def discard_upload_r_def unlinkSync_r_def split: option.split)

lemma formatItemResponse_frame:
  "host s' = host s \<Longrightarrow> port s' = port s \<Longrightarrow> formatItemResponse s' it = formatItemResponse s it"
  by (simp add: formatItemResponse_def)

lemma list_corresponds:
  assumes "corresponds s t"
  shows "same_response (base_f s) (fst (list_f s)) (fst (list_r t))
       \<and> corresponds (snd (list_f s)) (snd (list_r t))"
proof -
  from assms have f: "faults t = []" and l: "list (inventory s) = table t"
    by (auto simp: corresponds_def)
  have b: "body (fst (list_f s))
      = Json_items (map (rebase (base_f s)) (map formatItemResponse_r (table t)))"
    using l by (simp add: list_f_def format_rebase)
  have c: "body (fst (list_r t)) = Json_items (map formatItemResponse_r (table t))"
    using f by (simp add: list_r_def)
  have "same_body (base_f s) (body (fst (list_f s))) (body (fst (list_r t)))"
    unfolding b c by (simp only: same_body.simps)
  with assms f show ?thesis
    by (simp add: list_f_def list_r_def same_response_def)
qed

lemma get_corresponds:
  assumes "corresponds s t" and "pg_int p = Some k" and "Number_js p = Num k"
  shows "same_response (base_f s) (fst (get_f s p)) (fst (get_r t p))
       \<and> corresponds (snd (get_f s p)) (snd (get_r t p))"
proof -
  from assms(1) have f: "faults t = []" and l: "list (inventory s) = table t"
    by (auto simp: corresponds_def)
  show ?thesis
  proof (cases "find (\<lambda>r. item_id r = k) (table t)")
    case None
    with assms f l show ?thesis
      by (simp add: get_f_def get_r_def select_by_id_ok find_id_Num same_response_def
          not_found_def)
  next
    case (Some it)
    with assms f l show ?thesis
      by (simp add: get_f_def get_r_def select_by_id_ok find_id_Num same_response_def
          format_rebase)
  qed
qed

lemma update_corresponds:
  assumes "corresponds s t" and "pg_int p = Some k" and "Number_js p = Num k"
  shows "same_response (base_f s) (fst (update_f s p name descr)) (fst (update_r t p name descr))
       \<and> corresponds (snd (update_f s p name descr)) (snd (update_r t p name descr))"
proof -
  from assms(1) have f: "faults t = []" and l: "list (inventory s) = table t"
    and n: "nextId (inventory s) = serial t" and d: "distinct (map item_id (table t))"
    and fresh: "ids_fresh (inventory s)"
    by (auto simp: corresponds_def ids_fresh_def)
  note ids = update_f_ids [OF fresh, of p name descr]
  show ?thesis
  proof (cases "find (\<lambda>r. item_id r = k) (table t)")
    case None
    with assms f l show ?thesis
      by (simp add: update_f_def update_r_def select_by_id_ok find_id_Num same_response_def
          not_found_def)
  next
    case (Some it)
    then have mem: "it \<in> set (table t)" and k: "item_id it = k"
      by (auto simp: find_Some_iff)
    let ?it = "it\<lparr>inventory_name := nullish name (inventory_name it),
                   description := nullish descr (description it)\<rparr>"
    have m: "mutate_found (\<lambda>v. Num (item_id v) = Num k) (\<lambda>_. ?it) (table t)
        = map (\<lambda>r. if item_id r = k
                 then r\<lparr>inventory_name := nullish name (inventory_name it),
                        description := nullish descr (description it)\<rparr>
                 else r) (table t)"
    proof (rule mutate_found_map [OF d])
      fix x
      assume "x \<in> set (table t)" and "item_id x = k"
      with mem k d have "x = it"
        using distinct_same_id by metis
      then show "x\<lparr>inventory_name := nullish name (inventory_name it),
                   description := nullish descr (description it)\<rparr> = ?it"
        by simp
    qed
    have resp: "fst (update_f s p name descr)
        = \<lparr>status = 200, body = Json_item (formatItemResponse s ?it)\<rparr>"
      using Some assms l
      by (simp add: update_f_def find_id_Num Let_def writeFileSync_def formatItemResponse_def)
    have tab: "list (inventory (snd (update_f s p name descr)))
        = mutate_found (\<lambda>v. Num (item_id v) = Num k) (\<lambda>_. ?it) (table t)"
      using Some assms l by (simp add: update_f_inventory find_id_Num)
    have rel: "fst (update_r t p name descr)
        = \<lparr>status = 200, body = Json_item (formatItemResponse_r ?it)\<rparr>"
      "table (snd (update_r t p name descr))
        = map (\<lambda>r. if item_id r = k
                 then r\<lparr>inventory_name := nullish name (inventory_name it),
                        description := nullish descr (description it)\<rparr>
                 else r) (table t)"
      "serial (snd (update_r t p name descr)) = serial t"
      "faults (snd (update_r t p name descr)) = []"
      using Some assms f k
      by (simp_all add: update_r_def select_by_id_ok Let_def cong: if_cong)
    from resp rel tab m ids n show ?thesis
      by (simp add: same_response_def corresponds_def format_rebase)
  qed
qed

lemma put_photo_corresponds:
  assumes "corresponds s t" and "pg_int p = Some k" and "Number_js p = Num k"
  shows "same_response (base_f s) (fst (put_photo_f s p upl)) (fst (put_photo_r t p upl))
       \<and> corresponds (snd (put_photo_f s p upl)) (snd (put_photo_r t p upl))"
proof -
  from assms(1) have f: "faults t = []" and l: "list (inventory s) = table t"
    and n: "nextId (inventory s) = serial t" and d: "distinct (map item_id (table t))"
    and fresh: "ids_fresh (inventory s)"
    by (auto simp: corresponds_def ids_fresh_def)
  note ids = put_photo_f_ids [OF fresh, of p upl]
  show ?thesis
  proof (cases "find (\<lambda>r. item_id r = k) (table t)")
    case None
    with assms f l show ?thesis
      by (simp add: put_photo_f_def put_photo_r_def select_by_id_ok find_id_Num
          same_response_def corresponds_def not_found_def)
  next
    case (Some it)
    then have mem: "it \<in> set (table t)" and k: "item_id it = k"
      by (auto simp: find_Some_iff)
    have m: "mutate_found (\<lambda>v. Num (item_id v) = Num k) (\<lambda>_. it\<lparr>photo := upl\<rparr>) (table t)
        = map (\<lambda>r. if item_id r = k then r\<lparr>photo := upl\<rparr> else r) (table t)"
    proof (rule mutate_found_map [OF d])
      fix x
      assume "x \<in> set (table t)" and "item_id x = k"
      with mem k d have "x = it"
        using distinct_same_id by metis
      then show "x\<lparr>photo := upl\<rparr> = it\<lparr>photo := upl\<rparr>"
        by simp
    qed
    from Some assms l have found: "find_id (Number_js p) (list (inventory s)) = Some it"
      by (simp add: find_id_Num)
    have tab: "list (inventory (snd (put_photo_f s p upl)))
        = mutate_found (\<lambda>v. Num (item_id v) = Num k) (\<lambda>_. it\<lparr>photo := upl\<rparr>) (table t)"
      using found assms l by (simp add: put_photo_f_inventory)
    note rel = put_photo_r_present [OF f assms(2) Some, of upl]
    from put_photo_f_present(1) [OF found, of upl] rel tab m ids n f k show ?thesis
      by (simp add: same_response_def corresponds_def format_rebase)
  qed
qed

lemma delete_corresponds:
  assumes "corresponds s t" and "pg_int p = Some k" and "Number_js p = Num k"
  shows "same_response (base_f s) (fst (delete_f s p)) (fst (delete_r t p))
       \<and> corresponds (snd (delete_f s p)) (snd (delete_r t p))"
proof -
  from assms(1) have f: "faults t = []" and l: "list (inventory s) = table t"
    and n: "nextId (inventory s) = serial t" and d: "distinct (map item_id (table t))"
    and fresh: "ids_fresh (inventory s)"
    by (auto simp: corresponds_def ids_fresh_def)
  note ids = delete_f_ids [OF fresh, of p]
  show ?thesis
  proof (cases "find (\<lambda>r. item_id r = k) (table t)")
    case None
    with assms f l show ?thesis
      by (simp add: delete_f_absent delete_r_absent find_id_Num same_response_def
          not_found_def)
  next
    case (Some it)
    then have k: "item_id it = k"
      by (auto simp: find_Some_iff)
    from Some assms l have found: "find_id (Number_js p) (list (inventory s)) = Some it"
      by (simp add: find_id_Num)
    have tab: "list (inventory (snd (delete_f s p))) = filter (\<lambda>r. item_id r \<noteq> k) (table t)"
      using found assms l drop_found_filter [OF d] by (simp add: delete_f_inventory)
    note rel = delete_r_present [OF f assms(2) Some]
    from delete_f_present(1) [OF found] rel tab ids n f k show ?thesis
      by (simp add: same_response_def corresponds_def)
  qed
qed

lemma search_corresponds:
  assumes "corresponds s t" and "search_id_agrees i"
    and "h \<noteq> Some ''on'' \<or>
         (case find_id (parseInt_js i) (list (inventory s)) of
            None \<Rightarrow> True
          | Some it \<Rightarrow> \<not> truthy (photo it))"
  shows "same_response (base_f s) (fst (search_f s i h)) (fst (search_r t i h))
       \<and> corresponds (snd (search_f s i h)) (snd (search_r t i h))"
proof -
  from assms(1) have f: "faults t = []" and l: "list (inventory s) = table t"
    by (auto simp: corresponds_def)
  have st: "corresponds (snd (search_f s i h)) (snd (search_r t i h))"
    using assms(1) f by (simp add: search_f_state search_r_state)
  show ?thesis
  proof (cases i)
    case None
    then have "fst (search_f s i h) = not_found" "fst (search_r t i h) = not_found"
      using f by (simp_all add: search_f_def search_r_def parseInt_js_undefined find_id_NaN
          select_by_id_def)
    with st show ?thesis
      by (simp add: same_response_def not_found_def)
  next
    case (Some p)
    with assms(2) obtain k where k: "pg_int p = Some k" "parseInt_js (Some p) = Num k"
      by (auto simp: search_id_agrees_def split: option.splits)
    show ?thesis
    proof (cases "find (\<lambda>r. item_id r = k) (table t)")
      case None
      with Some k f l have "fst (search_f s i h) = not_found" "fst (search_r t i h) = not_found"
        by (simp_all add: search_f_def search_r_def find_id_Num select_by_id_ok)
      with st show ?thesis
        by (simp add: same_response_def not_found_def)
    next
      case (Some it)
      with \<open>i = Some p\<close> k l have found: "find_id (parseInt_js i) (list (inventory s)) = Some it"
        by (simp add: find_id_Num)
      from Some \<open>i = Some p\<close> k f have sel: "select_by_id i t = Some (Some it)"
        by (simp add: select_by_id_ok)
      from assms(3) found have c: "h \<noteq> Some ''on'' \<or> \<not> truthy (photo it)"
        by simp
      have "fst (search_f s i h) = fst (search_r t i h)"
        using found sel c
        by (auto simp: search_f_def search_r_def Let_def formatItemResponse_def
            formatItemResponse_r_def)
      moreover obtain r where "fst (search_r t i h) = \<lparr>status = 200, body = Json_responseItem r\<rparr>"
        using sel by (simp add: search_r_def Let_def)
      ultimately show ?thesis
        using st by (simp add: same_response_def)
    qed
  qed
qed

text \<open>One request, and then a sequence of requests.\<close>

lemma step_corresponds:
  assumes "corresponds s t" and "comparable s r"
  shows "same_response (base_f s) (fst (step_f s r)) (fst (step_r t r))
       \<and> corresponds (snd (step_f s r)) (snd (step_r t r))"
proof (cases r)
  case (Register name descr upl)
  with register_corresponds [OF assms(1)] assms(2) show ?thesis by simp
next
  case List_all
  with list_corresponds [OF assms(1)] show ?thesis by simp
next
  case (Get p)
  with assms(2) obtain k where "pg_int p = Some k" "Number_js p = Num k"
    by (auto simp: id_agrees_def split: option.splits)
  with get_corresponds [OF assms(1)] Get show ?thesis by simp
next
  case (Update p name descr)
  with assms(2) obtain k where "pg_int p = Some k" "Number_js p = Num k"
    by (auto simp: id_agrees_def split: option.splits)
  with update_corresponds [OF assms(1)] Update show ?thesis by simp
next
  case (Put_photo p upl)
  with assms(2) obtain k where "pg_int p = Some k" "Number_js p = Num k"
    by (auto simp: id_agrees_def split: option.splits)
  with put_photo_corresponds [OF assms(1)] Put_photo show ?thesis by simp
next
  case (Delete p)
  with assms(2) obtain k where "pg_int p = Some k" "Number_js p = Num k"
    by (auto simp: id_agrees_def split: option.splits)
  with delete_corresponds [OF assms(1)] Delete show ?thesis by simp
next
  case (Search i h)
  with assms(2) search_corresponds [OF assms(1), of i h] show ?thesis by simp
qed

lemma base_f_step: "base_f (snd (step_f s r)) = base_f s"
proof -
  have "host (snd (step_f s r)) = host s \<and> port (snd (step_f s r)) = port s"
    by (cases r)
      (simp_all add: register_f_def list_f_def get_f_def update_f_def put_photo_f_def
        delete_f_def search_f_def Let_def writeFileSync_def multer_def discard_upload_def
        unlink_photo_def unlinkSync_def split: option.split)
  then show ?thesis
    by (simp add: base_f_def)
qed

lemma run_corresponds:
  "corresponds s t \<Longrightarrow> comparable_run s rs \<Longrightarrow>
     list_all2 (same_response (base_f s)) (answers_f s rs) (answers_r t rs)
     \<and> corresponds (run_f s rs) (run_r t rs)"
proof (induction rs arbitrary: s t)
  case Nil
  then show ?case by simp
next
  case (Cons r rs)
  from Cons.prems have c: "comparable s r" "comparable_run (snd (step_f s r)) rs"
    by simp_all
  note st = step_corresponds [OF Cons.prems(1) c(1)]
  from Cons.IH [OF _ c(2)] st
  have "list_all2 (same_response (base_f (snd (step_f s r))))
          (answers_f (snd (step_f s r)) rs) (answers_r (snd (step_r t r)) rs)
        \<and> corresponds (run_f (snd (step_f s r)) rs) (run_r (snd (step_r t r)) rs)"
    by blast
  with st show ?case
    by (simp add: base_f_step)
qed

lemma pg_int_abc: "pg_int ''abc'' = None"
  by code_simp

lemma drill_corresponds: "corresponds drill_f drill_r"
  by (simp add: corresponds_def drill_f_eq drill_r_eq ids_fresh_def drill_def)

lemma fresh_corresponds: "corresponds fresh_f fresh_r"
  by (simp add: corresponds_def fresh_f_eq fresh_r_def ids_fresh_def)

text \<open>
  C4, as stated, fails. The two stores hold the same single item with a photo, and the
  id text \<^verbatim>\<open>1\<close> is read alike by both variants, but a search with the photo hint is
  answered with the description \<^verbatim>\<open>cordless [Photo:http://localhost:3000/inventory/1/photo]\<close>
  by the flat-file variant and with \<^verbatim>\<open>cordless [Photo: /inventory/1/photo ]\<close> by the
  relational one: the markers differ in their spaces, whatever the locator base. The
  variants also differ on an id text that is no number: \<^verbatim>\<open>GET /inventory/abc\<close> is
  answered with 404 by the flat-file variant and with 500 by the relational one.
\<close>

theorem variants_differ_counterexample:
  "corresponds drill_f drill_r
   \<and> search_id_agrees (Some ''1'')
   \<and> fst (step_f drill_f (Search (Some ''1'') (Some ''on''))) =
       \<lparr>status = 200,
        body = Json_responseItem
          \<lparr>r_id = 1, r_inventory_name = ''Drill'',
           r_description = ''cordless [Photo:http://localhost:3000/inventory/1/photo]''\<rparr>\<rparr>
   \<and> fst (step_r drill_r (Search (Some ''1'') (Some ''on''))) =
       \<lparr>status = 200,
        body = Json_responseItem
          \<lparr>r_id = 1, r_inventory_name = ''Drill'',
           r_description = ''cordless [Photo: /inventory/1/photo ]''\<rparr>\<rparr>
   \<and> \<not> same_response (base_f drill_f)
         (fst (step_f drill_f (Search (Some ''1'') (Some ''on''))))
         (fst (step_r drill_r (Search (Some ''1'') (Some ''on''))))
   \<and> \<not> (\<exists>b. ''cordless [Photo:http://localhost:3000/inventory/1/photo]''
            = ''cordless [Photo: '' @ b @ ''/inventory/1/photo ]'')
   \<and> fst (step_f drill_f (Get ''abc'')) = not_found
   \<and> fst (step_r drill_r (Get ''abc'')) = server_error"
proof -
  have f: "find_id (parseInt_js (Some ''1'')) (list (inventory drill_f)) = Some drill"
    by (simp add: parseInt_js_1 find_drill_f)
  have a: "fst (search_f drill_f (Some ''1'') (Some ''on'')) =
       \<lparr>status = 200,
        body = Json_responseItem
          \<lparr>r_id = 1, r_inventory_name = ''Drill'',
           r_description = ''cordless [Photo:http://localhost:3000/inventory/1/photo]''\<rparr>\<rparr>"
    by (simp add: search_f_found [OF f]) (simp add: drill_def drill_f_eq show_int_1)
  have b: "fst (search_r drill_r (Some ''1'') (Some ''on'')) =
       \<lparr>status = 200,
        body = Json_responseItem
          \<lparr>r_id = 1, r_inventory_name = ''Drill'',
           r_description = ''cordless [Photo: /inventory/1/photo ]''\<rparr>\<rparr>"
    by (simp add: search_r_found [OF select_drill_r]) (simp add: drill_def show_int_1)
  have c: "fst (get_f drill_f ''abc'') = not_found"
    by (simp add: get_f_def Number_js_abc find_id_NaN)
  have d: "fst (get_r drill_r ''abc'') = server_error"
    by (simp add: get_r_def select_by_id_def pg_int_abc query_fails_def drill_r_eq)
  have e: "search_id_agrees (Some ''1'')"
    by (simp add: search_id_agrees_def pg_int_1 parseInt_js_1)
  from a b c d e drill_corresponds show ?thesis
    by (simp add: same_response_def)
qed

text \<open>
  C4, amended. Started from stores that hold the same records, and as long as no query
  of the database fails, the two variants answer every request whose id text both read
  as the same integer with the same status and the same body up to the base of the
  photo locators, and leave stores that again hold the same records. This covers
  register, list (as a multiset of views), get, update_metadata, replace_photo, delete,
  and search without the photo hint or for an item without a photo; it carries over to
  every sequence of such requests. A search with the photo hint for an item with a
  photo is excluded: there the markers of the two variants differ. A registration is
  answered alike from any two stores that hold the same records; the stores hold the
  same records again after it while the counter of the flat-file variant is one from
  which \<^verbatim>\<open>nextId += 1\<close> is exact (below \<open>2^53\<close>), which is the condition under which a
  registration is among the requests compared.
\<close>

theorem variants_agree_on_comparable_requests:
  "(corresponds s t \<and> comparable s r \<longrightarrow>
      same_response (base_f s) (fst (step_f s r)) (fst (step_r t r))
      \<and> corresponds (snd (step_f s r)) (snd (step_r t r)))
   \<and> (corresponds s t \<and> comparable_run s rs \<longrightarrow>
      list_all2 (same_response (base_f s)) (answers_f s rs) (answers_r t rs)
      \<and> corresponds (run_f s rs) (run_r t rs))
   \<and> (corresponds s t \<longrightarrow>
      same_response (base_f s) (fst (register_f s name descr upl))
        (fst (register_r t name descr upl)))"
  using step_corresponds run_corresponds register_same_response by blast

theorem variants_agree_on_comparable_requests_witness:
  "corresponds fresh_f fresh_r
   \<and> comparable_run fresh_f
       [Register (Some ''Drill'') (Some ''cordless'') (Some ''a1b2''), Get ''1'',
        Search (Some ''1'') None, Delete ''1'']
   \<and> list_all2 (same_response (base_f fresh_f))
       (answers_f fresh_f
         [Register (Some ''Drill'') (Some ''cordless'') (Some ''a1b2''), Get ''1'',
          Search (Some ''1'') None, Delete ''1''])
       (answers_r fresh_r
         [Register (Some ''Drill'') (Some ''cordless'') (Some ''a1b2''), Get ''1'',
          Search (Some ''1'') None, Delete ''1''])
   \<and> corresponds
       (run_f fresh_f
         [Register (Some ''Drill'') (Some ''cordless'') (Some ''a1b2''), Get ''1'',
          Search (Some ''1'') None, Delete ''1''])
       (run_r fresh_r
         [Register (Some ''Drill'') (Some ''cordless'') (Some ''a1b2''), Get ''1'',
          Search (Some ''1'') None, Delete ''1''])"
proof -
  let ?rs = "[Register (Some ''Drill'') (Some ''cordless'') (Some ''a1b2''), Get ''1'',
        Search (Some ''1'') None, Delete ''1'']"
  have "comparable_run fresh_f ?rs"
    by (simp add: id_agrees_def search_id_agrees_def pg_int_1 Number_js_1 parseInt_js_1
        exact_counter_def fresh_f_eq)
  with variants_agree_on_comparable_requests [of fresh_f fresh_r "Get ''1''" ?rs]
    fresh_corresponds
  show ?thesis
    by blast
qed

section \<open>Search on the store of objects\<close>

lemma find_deref:
  "list_all (\<lambda>a. deref h a \<noteq> None) rs \<Longrightarrow>
     find_id n (List.map_filter (deref h) rs) =
       (case find (\<lambda>a. case deref h a of None \<Rightarrow> False | Some v \<Rightarrow> Num (item_id v) = n) rs of
          None \<Rightarrow> None
        | Some a \<Rightarrow> deref h a)"
  by (induction rs) (auto simp: find_id_def)

lemma wf_store_deref: "wf_store h \<Longrightarrow> list_all (\<lambda>a. deref h a \<noteq> None) (refs h)"
  by (simp add: wf_store_def list_all_iff)

text \<open>The handler leaves the list and every object below \<open>next_free\<close> as they were.\<close>

lemma search_store_frame:
  "refs (snd (search_store hst prt h i hp)) = refs h
   \<and> (\<forall>a. a < next_free h \<longrightarrow> cells (snd (search_store hst prt h i hp)) a = cells h a)"
  by (simp add: search_store_def alloc_def append_description_def Let_def
      split: option.split obj.split)

lemma search_store_items:
  assumes "wf_store h"
  shows "stored_items (snd (search_store hst prt h i hp)) = stored_items h"
proof -
  let ?h = "snd (search_store hst prt h i hp)"
  have "deref ?h a = deref h a" if "a \<in> set (refs h)" for a
    using that assms search_store_frame [of hst prt h i hp]
    by (simp add: deref_def wf_store_def list_all_iff)
  then have "List.map_filter (deref ?h) (refs h) = List.map_filter (deref h) (refs h)"
    by (simp add: List.map_filter_def cong: map_cong filter_cong)
  then show ?thesis
    using search_store_frame [of hst prt h i hp] by (simp add: stored_items_def)
qed

text \<open>It answers as the handler on values does.\<close>

lemma search_store_answer:
  assumes "wf_store h" and "stored_items h = list (inventory s)"
  shows "fst (search_store (host s) (port s) h i hp) = fst (search_f s i hp)"
proof -
  note f = find_deref [OF wf_store_deref [OF assms(1)], of "parseInt_js i"]
  show ?thesis
  proof (cases "find (\<lambda>a. case deref h a of None \<Rightarrow> False
                              | Some v \<Rightarrow> Num (item_id v) = parseInt_js i) (refs h)")
    case None
    with f assms(2) show ?thesis
      by (simp add: search_store_def search_f_def stored_items_def)
  next
    case (Some a)
    then have "a \<in> set (refs h)"
      by (auto simp: find_Some_iff)
    with assms(1) obtain it where d: "deref h a = Some it"
      by (auto simp: wf_store_def list_all_iff)
    with f Some assms(2) have "find_id (parseInt_js i) (list (inventory s)) = Some it"
      by (simp add: stored_items_def)
    with Some d show ?thesis
      by (simp add: search_store_def search_f_def alloc_def append_description_def Let_def
          formatItemResponse_def)
  qed
qed

lemma drill_store_wf: "wf_store drill_store \<and> stored_items drill_store = list (inventory drill_f)"
  by (simp add: wf_store_def stored_items_def drill_store_def deref_def drill_f_eq)

text \<open>
  C9. The photo hint is computed on the response only. In the flat-file variant a search
  returns the state it was given, so \<open>inventory\<close>, \<^verbatim>\<open>inventory.json\<close>, the uploads and the
  log are the same and a following \<^verbatim>\<open>GET /inventory/:id\<close> answers as it would have
  before. On the store of objects, the handler leaves \<^verbatim>\<open>inventory.list\<close> and every
  object that existed before as they were (the description it extends belongs to an
  object it has created), so the stored items are the same, and its answer is the answer
  of the handler on values. In the relational variant a search issues one \<^verbatim>\<open>SELECT\<close>
  and nothing else: the table, the sequence, the files and the log are unchanged, and
  when no query fails a following get answers as before.
\<close>

theorem search_is_display_only:
  "snd (search_f s i h) = s
   \<and> get_f (snd (search_f s i h)) p = get_f s p
   \<and> refs (snd (search_store hst prt st i h)) = refs st
   \<and> (\<forall>a. a < next_free st \<longrightarrow> cells (snd (search_store hst prt st i h)) a = cells st a)
   \<and> (wf_store st \<longrightarrow> stored_items (snd (search_store hst prt st i h)) = stored_items st)
   \<and> (wf_store st \<and> stored_items st = list (inventory s) \<longrightarrow>
        fst (search_store (host s) (port s) st i h) = fst (search_f s i h))
   \<and> snd (search_r t i h) = next_query t
   \<and> table (snd (search_r t i h)) = table t
   \<and> cache (snd (search_r t i h)) = cache t
   \<and> trace (snd (search_r t i h)) = trace t
   \<and> (faults t = [] \<longrightarrow> get_r (snd (search_r t i h)) p = get_r t p)"
proof -
  have "table (next_query t) = table t" "cache (next_query t) = cache t"
    "trace (next_query t) = trace t"
    by (simp_all add: next_query_def)
  then show ?thesis
    using search_store_frame [of hst prt st i h] search_store_items [of st hst prt i h]
      search_store_answer [of st s i h]
    by (simp add: search_f_state search_r_state)
qed

theorem search_is_display_only_witness:
  "faults drill_r = []
   \<and> wf_store drill_store \<and> stored_items drill_store = list (inventory drill_f)
   \<and> get_r (snd (search_r drill_r (Some ''1'') (Some ''on''))) ''1'' = get_r drill_r ''1''
   \<and> get_f (snd (search_f drill_f (Some ''1'') (Some ''on''))) ''1'' = get_f drill_f ''1''
   \<and> stored_items (snd (search_store ''localhost'' ''3000'' drill_store (Some ''1'') (Some ''on'')))
       = [drill]
   \<and> fst (search_store (host drill_f) (port drill_f) drill_store (Some ''1'') (Some ''on''))
       = fst (search_f drill_f (Some ''1'') (Some ''on''))"
proof -
  have f: "faults drill_r = []"
    by (simp add: drill_r_eq)
  have l: "stored_items drill_store = [drill]"
    by (simp add: stored_items_def drill_store_def deref_def)
  note t = search_is_display_only
    [of drill_f "Some ''1''" "Some ''on''" "''1''" "''localhost''" "''3000''" drill_store drill_r]
  from t f l drill_store_wf show ?thesis
    by simp
qed


end
